theory Spec2Isabelle
  imports Complex_Main "HOL-Library.Word" "HOL-Library.AList" "HOL-Library.Monad_Syntax"
begin

unbundle bit_operations_syntax

section \<open>Python string primitives used by the CUE parser\<close>

text \<open>
  The CUE file is opened with the single-byte encoding cp1252, so a decoded character is
  represented by its byte, a \<^typ>\<open>char\<close>. The functions below follow the
  methods of Python's \<^verbatim>\<open>str\<close> that \<^verbatim>\<open>parse_cue_file\<close> calls.
\<close>

text \<open>
  Whitespace as \<^verbatim>\<open>str.strip()\<close> and \<^verbatim>\<open>str.split()\<close> see it: tab, line feed,
  vertical tab, form feed, carriage return, the separators 0x1C to 0x1F, the space, and
  the no-break space (byte 0xA0 in cp1252).
\<close>

definition is_space :: "char \<Rightarrow> bool" where
  "is_space c = (c \<in> set [CHR 0x09, CHR 0x0A, CHR 0x0B, CHR 0x0C, CHR 0x0D,
                           CHR 0x1C, CHR 0x1D, CHR 0x1E, CHR 0x1F, CHR 0x20, CHR 0xA0])"

definition strip :: "string \<Rightarrow> string" where
  "strip s = rev (dropWhile is_space (rev (dropWhile is_space s)))"

text \<open>
  \<^verbatim>\<open>str.upper()\<close> on the letters a to z. The source only compares the upper-cased line
  with the literals TRACK, TITLE and INDEX 01; the upper-case form of a cp1252 character
  outside a to z contains none of the characters of these literals, so such characters
  are left as they are.
\<close>

definition upper_char :: "char \<Rightarrow> char" where
  "upper_char c =
     (case map_of (zip ''abcdefghijklmnopqrstuvwxyz'' ''ABCDEFGHIJKLMNOPQRSTUVWXYZ'') c of
        Some u \<Rightarrow> u
      | None \<Rightarrow> c)"

definition upper :: "string \<Rightarrow> string" where
  "upper s = map upper_char s"

definition startswith :: "string \<Rightarrow> string \<Rightarrow> bool" where
  "startswith s p = (take (length p) s = p)"

text \<open>The substring test \<^verbatim>\<open>p in s\<close>.\<close>

fun contains :: "string \<Rightarrow> string \<Rightarrow> bool" where
  "contains [] p = (p = [])"
| "contains (x # xs) p = (startswith (x # xs) p \<or> contains xs p)"

text \<open>\<^verbatim>\<open>s.split(sep)\<close> for a one-character separator: never an empty list.\<close>

fun split_on :: "char \<Rightarrow> string \<Rightarrow> string list" where
  "split_on sep [] = [[]]"
| "split_on sep (x # xs) =
     (if x = sep then [] # split_on sep xs
      else (case split_on sep xs of
              w # ws \<Rightarrow> (x # w) # ws
            | [] \<Rightarrow> [[x]]))"

text \<open>\<^verbatim>\<open>s.split()\<close>: the maximal runs of characters that are not whitespace.\<close>

fun split_ws :: "string \<Rightarrow> string list" where
  "split_ws [] = []"
| "split_ws (x # xs) =
     (if is_space x then split_ws xs
      else if xs = [] \<or> is_space (hd xs) then [x] # split_ws xs
      else (case split_ws xs of
              w # ws \<Rightarrow> (x # w) # ws
            | [] \<Rightarrow> [[x]]))"

text \<open>
  The last element as Python indexes it: \<^verbatim>\<open>xs[-1]\<close> raises IndexError on an empty
  list, which is \<^const>\<open>None\<close> here.
\<close>

definition index_last :: "'a list \<Rightarrow> 'a option" where
  "index_last xs = (if xs = [] then None else Some (last xs))"

subsection \<open>Integer literals\<close>

text \<open>
  \<^verbatim>\<open>int(s)\<close> in base ten: surrounding whitespace is ignored, one sign is allowed, and
  the rest is a non-empty run of digits in which single underscores may stand between
  two digits. Anything else raises ValueError (\<^const>\<open>None\<close>). So does a literal
  with more digits than the interpreter's limit, which is 4300 unless it is configured
  otherwise; the sign, the underscores and the whitespace are not counted, leading
  zeros are.
\<close>

definition max_str_digits :: int where
  "max_str_digits = 4300"

definition is_digit :: "char \<Rightarrow> bool" where
  "is_digit c = (c \<in> set ''0123456789'')"

definition digit_val :: "char \<Rightarrow> int" where
  "digit_val c = of_char c - 48"

text \<open>The digits of a literal with its underscores checked and removed.\<close>

fun digits_of :: "string \<Rightarrow> string option" where
  "digits_of [] = None"
| "digits_of [c] = (if is_digit c then Some [c] else None)"
| "digits_of (c # d # cs) =
     (if is_digit c then
        (if d = CHR ''_'' then map_option ((#) c) (digits_of cs)
         else map_option ((#) c) (digits_of (d # cs)))
      else None)"

definition int_of_digits :: "string \<Rightarrow> int" where
  "int_of_digits ds = foldl (\<lambda>acc c. 10 * acc + digit_val c) 0 ds"

text \<open>The value of a run of digits, when it is within the limit.\<close>

definition literal_value :: "string \<Rightarrow> int option" where
  "literal_value ds =
     (if max_str_digits < int (length ds) then None else Some (int_of_digits ds))"

definition py_int :: "string \<Rightarrow> int option" where
  "py_int s =
     (case strip s of
        [] \<Rightarrow> None
      | c # cs \<Rightarrow>
          if c = CHR ''-'' then map_option uminus (Option.bind (digits_of cs) literal_value)
          else if c = CHR ''+'' then Option.bind (digits_of cs) literal_value
          else Option.bind (digits_of (c # cs)) literal_value)"


section \<open>Double-precision arithmetic of the timecode conversion\<close>

text \<open>
  The source computes \<^verbatim>\<open>int((m * 60 + s + f / 75.0) * 1000)\<close> on Python floats, which
  are IEEE 754 doubles. A finite double is represented by the rational it stands for;
  every operation is the exact operation followed by rounding to the nearest double,
  ties to even. \<^const>\<open>None\<close> stands for a result that is not finite.
\<close>

text \<open>The number of binary digits of a positive integer.\<close>

function bitlen :: "int \<Rightarrow> int" where
  "bitlen n = (if n \<le> 0 then 0 else 1 + bitlen (n div 2))"
  by pat_completeness auto
termination
  by (relation "measure nat") auto

declare bitlen.simps [simp del]

definition pow2 :: "int \<Rightarrow> rat" where
  "pow2 e = (if 0 \<le> e then 2 ^ nat e else 1 / 2 ^ nat (- e))"

text \<open>The binary exponent of a positive rational: \<open>pow2 e \<le> x < pow2 (e + 1)\<close>.\<close>

definition ilog2 :: "rat \<Rightarrow> int" where
  "ilog2 x =
     (let (p, q) = quotient_of x;
          d = bitlen p - bitlen q
      in if pow2 d \<le> x then d else d - 1)"

definition round_half_even :: "rat \<Rightarrow> int" where
  "round_half_even r =
     (let n = \<lfloor>r\<rfloor>; d = r - of_int n
      in if d < 1 / 2 then n
         else if 1 / 2 < d then n + 1
         else if even n then n else n + 1)"

text \<open>
  Rounding to a double: 53 significant bits, the least exponent of a unit in the last
  place is -1074 (subnormal numbers), and a rounded magnitude whose binary exponent
  exceeds 1023 (a magnitude of \<open>2^1024\<close> or more) is not finite.
\<close>

definition round_double :: "rat \<Rightarrow> rat option" where
  "round_double x =
     (if x = 0 then Some 0
      else
        let e = ilog2 \<bar>x\<bar>;
            q = pow2 (max (e - 52) (- 1074));
            y = of_int (round_half_even (x / q)) * q
        in if 1024 \<le> ilog2 \<bar>y\<bar> then None else Some y)"

text \<open>\<^verbatim>\<open>int(x)\<close> of a finite float truncates toward zero.\<close>

definition py_trunc :: "rat \<Rightarrow> int" where
  "py_trunc x = (if 0 \<le> x then \<lfloor>x\<rfloor> else \<lceil>x\<rceil>)"

text \<open>
  Line 62 of the source. The conversion of an integer operand to a float raises
  OverflowError when it is too large, and \<^verbatim>\<open>int\<close> raises it on an infinite product;
  both are \<^const>\<open>None\<close>, since one handler catches them.
\<close>

definition timecode_ms :: "int \<Rightarrow> int \<Rightarrow> int \<Rightarrow> int option" where
  "timecode_ms m s f =
     do {
       ff \<leftarrow> round_double (of_int f);
       a \<leftarrow> round_double (ff / 75);
       ms \<leftarrow> round_double (of_int (m * 60 + s));
       b \<leftarrow> round_double (ms + a);
       c \<leftarrow> round_double (b * 1000);
       Some (py_trunc c)
     }"

subsection \<open>The exact value and the accuracy of the conversion\<close>

text \<open>The value of the expression of line 62 in exact arithmetic.\<close>

definition exact_ms :: "int \<Rightarrow> int \<Rightarrow> int \<Rightarrow> rat" where
  "exact_ms m s f = (of_int (m * 60 + s) + of_int f / 75) * 1000"


text \<open>
  Half a unit in the last place, relative to the value, and the relation between an
  exact value and a float that is at most \<open>k\<close> roundings away from it.
\<close>

definition ulp_half :: rat where
  "ulp_half = 1 / 2 ^ 53"

definition approx :: "nat \<Rightarrow> rat \<Rightarrow> rat \<Rightarrow> bool" where
  "approx k x y = ((1 - ulp_half) ^ k * x \<le> y \<and> y \<le> (1 + ulp_half) ^ k * x)"

section \<open>The CUE parser\<close>

type_synonym seed = "string \<times> int"

record parse_state =
  chapters :: "seed list"
  current_title :: "string option"
  current_time :: "int option"

definition dquote :: char where
  "dquote = CHR 0x22"

text \<open>
  The body of the \<^verbatim>\<open>try\<close> block of an INDEX 01 line (lines 56 to 62): the new value of
  \<^verbatim>\<open>current_time\<close>, or \<^const>\<open>None\<close> when any statement of the block raises
  (IndexError on an empty token list, ValueError when the token does not split into
  three fields or a field is not an integer literal, OverflowError in the arithmetic).
\<close>

definition index_time :: "string \<Rightarrow> int option" where
  "index_time line =
     do {
       time_str \<leftarrow> index_last (split_ws line);
       (case split_on CHR '':'' time_str of
          [m, s, f] \<Rightarrow>
            do {
              m' \<leftarrow> py_int m;
              s' \<leftarrow> py_int s;
              f' \<leftarrow> py_int f;
              timecode_ms m' s' f'
            }
        | _ \<Rightarrow> None)
     }"

text \<open>The test and the append of lines 47-48 and 65-66.\<close>

definition flush :: "parse_state \<Rightarrow> seed list" where
  "flush st =
     (case (current_title st, current_time st) of
        (Some t, Some tm) \<Rightarrow> chapters st @ [(t, tm)]
      | _ \<Rightarrow> chapters st)"

text \<open>
  One iteration of the loop of lines 44 to 64. In the TITLE branch the index 1 is in
  range, because the line contains the separator (lemma \<open>title_index_in_range\<close> below).
  The handler of line 63 only prints, so a failed INDEX 01 line leaves the state as it is.
\<close>

definition parse_line :: "parse_state \<Rightarrow> string \<Rightarrow> parse_state" where
  "parse_line st raw =
     (let line = strip raw in
      if startswith (upper line) ''TRACK'' then
        \<lparr>chapters = flush st, current_title = None, current_time = None\<rparr>
      else if startswith (upper line) ''TITLE'' then
        (if dquote \<in> set line
         then st\<lparr>current_title := Some (split_on dquote line ! 1)\<rparr>
         else st)
      else if contains (upper line) ''INDEX 01'' then
        (case index_time line of
           Some t \<Rightarrow> st\<lparr>current_time := Some t\<rparr>
         | None \<Rightarrow> st)
      else st)"

definition init_state :: parse_state where
  "init_state = \<lparr>chapters = [], current_title = None, current_time = None\<rparr>"

definition parse_cue_lines :: "string list \<Rightarrow> seed list" where
  "parse_cue_lines ls = flush (foldl parse_line init_state ls)"

text \<open>
  Iterating over a file opened in text mode: the lines of the text, each with its
  terminator, where a carriage return, a line feed and the pair of both end a line and
  are read as a line feed.
\<close>

fun text_lines :: "string \<Rightarrow> string list" where
  "text_lines [] = []"
| "text_lines (c # cs) =
     (if c = CHR 0x0D then
        (case cs of
           [] \<Rightarrow> [[CHR 0x0A]]
         | d # ds \<Rightarrow> if d = CHR 0x0A then [CHR 0x0A] # text_lines ds
                     else [CHR 0x0A] # text_lines cs)
      else if c = CHR 0x0A then [CHR 0x0A] # text_lines cs
      else (case text_lines cs of
              [] \<Rightarrow> [[c]]
            | w # ws \<Rightarrow> (c # w) # ws))"

text \<open>\<^verbatim>\<open>parse_cue_file\<close> on the decoded text of the CUE file.\<close>

definition parse_cue_file :: "string \<Rightarrow> seed list" where
  "parse_cue_file txt = parse_cue_lines (text_lines txt)"


section \<open>Tag frames and the tag container\<close>

text \<open>
  The frames the source builds with the tag library. A TIT2 sub-frame has an encoding
  and its text values; any frame of another kind that a file already carries is kept
  opaque.
\<close>

datatype sub_frame = TIT2 nat "string list"

datatype frame =
    CTOC string "8 word" "string list" "sub_frame list"
  | CHAP string int int int int "sub_frame list"
  | Other_frame string

fun element_id :: "frame \<Rightarrow> string" where
  "element_id (CTOC e _ _ _) = e"
| "element_id (CHAP e _ _ _ _ _) = e"
| "element_id (Other_frame _) = []"

fun start_time :: "frame \<Rightarrow> int" where
  "start_time (CHAP _ s _ _ _ _) = s"
| "start_time _ = 0"

fun end_time :: "frame \<Rightarrow> int" where
  "end_time (CHAP _ _ e _ _ _) = e"
| "end_time _ = 0"

text \<open>The flag bits of a table of contents, as the library numbers them.\<close>

definition TOP_LEVEL :: "8 word" where
  "TOP_LEVEL = 2"

definition ORDERED :: "8 word" where
  "ORDERED = 1"

text \<open>
  Modelled from the spec: the tag library is not among the sources. Its container is a
  dictionary from a frame's hash key to the frame; the key of a chapter or
  table-of-contents frame is the frame kind, a colon and the element id;
  \<^verbatim>\<open>add\<close> stores a frame under its key, replacing a frame with the same key. A
  dictionary keeps its keys distinct and in insertion order, which is an association
  list with \<^const>\<open>AList.update\<close> and \<^const>\<open>AList.delete\<close>.
\<close>

type_synonym tags = "(string \<times> frame) list"

fun hash_key :: "frame \<Rightarrow> string" where
  "hash_key (CTOC e _ _ _) = ''CTOC:'' @ e"
| "hash_key (CHAP e _ _ _ _ _) = ''CHAP:'' @ e"
| "hash_key (Other_frame k) = k"

definition add :: "frame \<Rightarrow> tags \<Rightarrow> tags" where
  "add fr tg = AList.update (hash_key fr) fr tg"

text \<open>Lines 81 to 83: the loop over a copy of the keys.\<close>

definition remove_chapter_frames :: "tags \<Rightarrow> tags" where
  "remove_chapter_frames tg =
     foldl (\<lambda>acc key. if startswith key ''CHAP'' \<or> startswith key ''CTOC''
                        then AList.delete key acc else acc)
       tg (map fst tg)"

text \<open>
  The format \<^verbatim>\<open>{n:02d}\<close> of a natural number: its decimal digits, filled with zeros
  on the left up to two characters.
\<close>

definition digit_char :: "nat \<Rightarrow> char" where
  "digit_char d = ''0123456789'' ! d"

fun dec :: "nat \<Rightarrow> string" where
  "dec n = (if n < 10 then [digit_char n] else dec (n div 10) @ [digit_char (n mod 10)])"

declare dec.simps [simp del]

definition fmt_02d :: "nat \<Rightarrow> string" where
  "fmt_02d n = (let ds = dec n in replicate (2 - length ds) CHR ''0'' @ ds)"

text \<open>Lines 90 and 104: the element id of the chapter with index \<open>idx\<close>.\<close>

definition chapter_id :: "nat \<Rightarrow> string" where
  "chapter_id idx = ''chp'' @ fmt_02d (idx + 1)"

text \<open>Lines 88 to 98.\<close>

definition child_ids :: "seed list \<Rightarrow> string list" where
  "child_ids chs = map (\<lambda>(idx, (title, start)). chapter_id idx) (enumerate 0 chs)"

definition ctoc_frame :: "seed list \<Rightarrow> frame" where
  "ctoc_frame chs = CTOC ''toc'' (TOP_LEVEL OR ORDERED) (child_ids chs) [TIT2 3 [''I'm a TOC'']]"

text \<open>
  Lines 104 to 117: the chapter frame of one iteration of the second loop. The title is
  given to TIT2 as one string, which the library splits into its text values at the
  NUL characters.
\<close>

definition chap_frame :: "seed list \<Rightarrow> int \<Rightarrow> nat \<Rightarrow> seed \<Rightarrow> frame" where
  "chap_frame chs total_duration_ms idx ch =
     (let (title, start) = ch;
          end = (if int idx < int (length chs) - 1 then snd (chs ! (idx + 1))
                 else total_duration_ms)
      in CHAP (chapter_id idx) start end 0 0 [TIT2 3 (split_on (CHR 0x00) title)])"

text \<open>
  Lines 80 to 118 on the container: the old chapter frames removed, the table of
  contents added, then one chapter frame for each chapter.
\<close>

definition build_tags :: "tags \<Rightarrow> seed list \<Rightarrow> int \<Rightarrow> tags" where
  "build_tags tg chs total_duration_ms =
     foldl (\<lambda>acc (idx, ch). add (chap_frame chs total_duration_ms idx ch) acc)
       (add (ctoc_frame chs) (remove_chapter_frames tg))
       (enumerate 0 chs)"


text \<open>
  Observations on a container: the test of line 82 on a key, the chapter frames and the
  table-of-contents frames in the order of the container, and the other entries.
\<close>

definition is_chapter_key :: "string \<Rightarrow> bool" where
  "is_chapter_key key = (startswith key ''CHAP'' \<or> startswith key ''CTOC'')"

definition chapter_frames :: "tags \<Rightarrow> frame list" where
  "chapter_frames tg = map snd (filter (\<lambda>(key, fr). startswith key ''CHAP'') tg)"

definition toc_frames :: "tags \<Rightarrow> frame list" where
  "toc_frames tg = map snd (filter (\<lambda>(key, fr). startswith key ''CTOC'') tg)"

definition other_frames :: "tags \<Rightarrow> tags" where
  "other_frames tg = filter (\<lambda>(key, fr). \<not> is_chapter_key key) tg"

text \<open>The entries that the loop of lines 103 to 118 adds.\<close>

definition new_chapter_entries :: "seed list \<Rightarrow> int \<Rightarrow> tags" where
  "new_chapter_entries chs total_ms =
     map (\<lambda>(idx, ch). (''CHAP:'' @ chapter_id idx, chap_frame chs total_ms idx ch)) (enumerate 0 chs)"

section \<open>Files, the environment and the writer\<close>

text \<open>
  A file system maps a path to the bytes of the file there; the messages the program
  prints in \<^verbatim>\<open>embed_chapters\<close> and \<^verbatim>\<open>process_files\<close> are collected in order.
  (The message the parser prints for a timecode it cannot read is not recorded.)
\<close>

type_synonym bytes = string

datatype event =
    Added_CTOC
  | Tags_after_CTOC
  | Added_CHAP string
  | Backup_created string
  | Error_creating_backup
  | Chapters_embedded
  | Error_saving_tags
  | Restored_from_backup
  | Error_restoring_backup
  | Final_tags
  | Found_chapters nat
  | Backup_deleted string
  | Cue_deleted string
  | Error_during_processing

record world =
  files :: "string \<Rightarrow> bytes option"
  printed :: "event list"

definition print :: "event \<Rightarrow> world \<Rightarrow> world" where
  "print e w = w\<lparr>printed := printed w @ [e]\<rparr>"

definition write_file :: "string \<Rightarrow> bytes \<Rightarrow> world \<Rightarrow> world" where
  "write_file path content w = w\<lparr>files := (files w)(path \<mapsto> content)\<rparr>"

definition delete_file :: "string \<Rightarrow> world \<Rightarrow> world" where
  "delete_file path w = w\<lparr>files := (files w)(path := None)\<rparr>"

text \<open>
  What the tag library and the operating system do is given by an environment:
  \<^item> \<open>id3_load\<close>: reading the tags of a file, which can find no tag header or fail;
  \<^item> \<open>info_length\<close>: the play length in seconds that the library reports, a float, or
    nothing when the file cannot be read as MP3;
  \<^item> \<open>id3_save\<close>: writing a container into a file with given bytes, which gives the new
    bytes or fails and leaves some bytes behind;
  \<^item> \<open>backup_copy\<close> and \<open>restore_copy\<close>: whether the two copies of lines 125-126 and
    139-140 succeed; a failed copy leaves its destination untouched (\<^const>\<open>None\<close>) or
    with some bytes;
  \<^item> \<open>remove_ok\<close>: whether \<^verbatim>\<open>os.remove\<close> of a path succeeds.
\<close>

datatype load_result = Loaded tags | No_header | Load_error

datatype save_result = Saved bytes | Save_error bytes

datatype copy_result = Copy_ok | Copy_fails "bytes option"

record env =
  id3_load :: "bytes \<Rightarrow> load_result"
  info_length :: "bytes \<Rightarrow> rat option"
  id3_save :: "tags \<Rightarrow> bytes \<Rightarrow> save_result"
  backup_copy :: copy_result
  restore_copy :: copy_result
  remove_ok :: "string \<Rightarrow> bool"

datatype error =
    Tag_load_error
  | Mp3_info_error
  | Save_failed
  | Cue_read_error
  | Remove_failed

text \<open>Lines 75 to 78: a file without a tag header starts with an empty container.\<close>

definition open_tags :: "env \<Rightarrow> bytes \<Rightarrow> error + tags" where
  "open_tags en content =
     (case id3_load en content of
        Loaded tg \<Rightarrow> Inr tg
      | No_header \<Rightarrow> Inr []
      | Load_error \<Rightarrow> Inl Tag_load_error)"

text \<open>
  Lines 85 and 86: \<^verbatim>\<open>int(mp3_info.info.length * 1000)\<close>, a product of floats. An
  infinite product makes \<^verbatim>\<open>int\<close> raise.
\<close>

definition total_duration :: "env \<Rightarrow> bytes \<Rightarrow> error + int" where
  "total_duration en content =
     (case info_length en content of
        None \<Rightarrow> Inl Mp3_info_error
      | Some len \<Rightarrow>
          (case round_double (len * 1000) of
             None \<Rightarrow> Inl Mp3_info_error
           | Some ms \<Rightarrow> Inr (py_trunc ms)))"

text \<open>The messages of lines 99 to 119.\<close>

definition frame_messages :: "seed list \<Rightarrow> event list" where
  "frame_messages chs =
     [Added_CTOC, Tags_after_CTOC] @
     map (\<lambda>(idx, ch). Added_CHAP (chapter_id idx)) (enumerate 0 chs)"

text \<open>Lines 121 to 129: the backup, made only when none is there; its failure is printed.\<close>

definition create_backup :: "env \<Rightarrow> string \<Rightarrow> bytes \<Rightarrow> world \<Rightarrow> world" where
  "create_backup en mp3_path content w =
     (let backup_file = mp3_path @ ''.bak'' in
      if files w backup_file = None then
        (case backup_copy en of
           Copy_ok \<Rightarrow> print (Backup_created backup_file) (write_file backup_file content w)
         | Copy_fails None \<Rightarrow> print Error_creating_backup w
         | Copy_fails (Some part) \<Rightarrow>
             print Error_creating_backup (write_file backup_file part w))
      else w)"

text \<open>
  Lines 137 to 143: the backup is opened first, so without a backup file the copy
  fails before the MP3 file is touched.
\<close>

definition restore_backup :: "env \<Rightarrow> string \<Rightarrow> world \<Rightarrow> world" where
  "restore_backup en mp3_path w =
     (case files w (mp3_path @ ''.bak'') of
        None \<Rightarrow> print Error_restoring_backup w
      | Some saved \<Rightarrow>
          (case restore_copy en of
             Copy_ok \<Rightarrow> print Restored_from_backup (write_file mp3_path saved w)
           | Copy_fails None \<Rightarrow> print Error_restoring_backup w
           | Copy_fails (Some part) \<Rightarrow>
               print Error_restoring_backup (write_file mp3_path part w)))"

text \<open>
  \<^verbatim>\<open>embed_chapters\<close>: the result is the path of the backup, or the exception that
  leaves the function. The library reads the MP3 file three times (tags, length, save);
  nothing writes to it in between, since the backup has another path.
\<close>

definition embed_chapters ::
    "env \<Rightarrow> string \<Rightarrow> seed list \<Rightarrow> world \<Rightarrow> (error + string) \<times> world" where
  "embed_chapters en mp3_path chs w =
     (case files w mp3_path of
        None \<Rightarrow> (Inl Tag_load_error, w)
      | Some content \<Rightarrow>
          (case open_tags en content of
             Inl e \<Rightarrow> (Inl e, w)
           | Inr tg \<Rightarrow>
               (case total_duration en content of
                  Inl e \<Rightarrow> (Inl e, w)
                | Inr total_duration_ms \<Rightarrow>
                    let new_tags = build_tags tg chs total_duration_ms;
                        w1 = w\<lparr>printed := printed w @ frame_messages chs\<rparr>;
                        w2 = create_backup en mp3_path content w1
                    in (case id3_save en new_tags content of
                          Saved new_content \<Rightarrow>
                            (Inr (mp3_path @ ''.bak''),
                             print Final_tags
                               (print Chapters_embedded (write_file mp3_path new_content w2)))
                        | Save_error left \<Rightarrow>
                            (Inl Save_failed,
                             restore_backup en mp3_path
                               (print Error_saving_tags (write_file mp3_path left w2)))))))"

text \<open>
  Opening the CUE file with the encoding cp1252: five bytes have no character there, and
  a file that has one of them, or that is missing, makes the parser raise.
\<close>

definition decode_cp1252 :: "bytes \<Rightarrow> string option" where
  "decode_cp1252 bs =
     (if \<exists>b \<in> set bs. b \<in> set [CHR 0x81, CHR 0x8D, CHR 0x8F, CHR 0x90, CHR 0x9D]
      then None else Some bs)"

definition read_cue :: "world \<Rightarrow> string \<Rightarrow> error + seed list" where
  "read_cue w cue_path =
     (case files w cue_path of
        None \<Rightarrow> Inl Cue_read_error
      | Some bs \<Rightarrow>
          (case decode_cp1252 bs of
             None \<Rightarrow> Inl Cue_read_error
           | Some txt \<Rightarrow> Inr (parse_cue_file txt)))"

text \<open>Lines 337-339 and 340-342: a file is removed when it exists.\<close>

definition remove_if_exists ::
    "env \<Rightarrow> string \<Rightarrow> event \<Rightarrow> world \<Rightarrow> error + world" where
  "remove_if_exists en path msg w =
     (if files w path \<noteq> None then
        (if remove_ok en path then Inr (print msg (delete_file path w))
         else Inl Remove_failed)
      else Inr w)"

text \<open>
  \<^verbatim>\<open>process_files\<close> as defined at line 324 (this definition replaces the one of
  line 150 when the module is loaded). Every exception, also the ValueError raised for
  an empty chapter list, ends in the handler of line 344, which prints and returns
  \<^verbatim>\<open>False\<close>.
\<close>

definition process_files :: "env \<Rightarrow> string \<Rightarrow> string \<Rightarrow> world \<Rightarrow> bool \<times> world" where
  "process_files en cue_path mp3_path w =
     (case read_cue w cue_path of
        Inl e \<Rightarrow> (False, print Error_during_processing w)
      | Inr chs \<Rightarrow>
          if chs = [] then (False, print Error_during_processing w)
          else
            (case embed_chapters en mp3_path chs (print (Found_chapters (length chs)) w) of
               (Inl e, w1) \<Rightarrow> (False, print Error_during_processing w1)
             | (Inr backup_file, w1) \<Rightarrow>
                 (case remove_if_exists en backup_file (Backup_deleted backup_file) w1 of
                    Inl e \<Rightarrow> (False, print Error_during_processing w1)
                  | Inr w2 \<Rightarrow>
                      (case remove_if_exists en cue_path (Cue_deleted cue_path) w2 of
                         Inl e \<Rightarrow> (False, print Error_during_processing w2)
                       | Inr w3 \<Rightarrow> (True, w3)))))"

section \<open>Reading a CUE text as a header and TRACK blocks\<close>

text \<open>
  The three tests of the loop body, in the order of the \<^verbatim>\<open>if\<close> chain of lines 46 to
  54, as observations on one raw line: whether it opens a TRACK block, the title it sets
  and the time it sets.
\<close>

definition is_track_line :: "string \<Rightarrow> bool" where
  "is_track_line raw = startswith (upper (strip raw)) ''TRACK''"

definition is_title_line :: "string \<Rightarrow> bool" where
  "is_title_line raw =
     (\<not> startswith (upper (strip raw)) ''TRACK'' \<and> startswith (upper (strip raw)) ''TITLE'')"

definition is_index_line :: "string \<Rightarrow> bool" where
  "is_index_line raw =
     (\<not> startswith (upper (strip raw)) ''TRACK'' \<and> \<not> startswith (upper (strip raw)) ''TITLE''
      \<and> contains (upper (strip raw)) ''INDEX 01'')"

definition title_of_line :: "string \<Rightarrow> string option" where
  "title_of_line raw =
     (if is_title_line raw \<and> dquote \<in> set (strip raw)
      then Some (split_on dquote (strip raw) ! 1) else None)"

definition time_of_line :: "string \<Rightarrow> int option" where
  "time_of_line raw = (if is_index_line raw then index_time (strip raw) else None)"

text \<open>
  The lines a TRACK block needs for a seed, by their form: a TITLE line with a double
  quote, and an INDEX 01 line whose last token is three integer literals separated by
  colons, not negative and with \<open>m * 60 + s + f\<close> at most \<open>10^9\<close>.
\<close>

definition quoted_title_line :: "string \<Rightarrow> bool" where
  "quoted_title_line raw = (is_title_line raw \<and> dquote \<in> set (strip raw))"

definition well_formed_index_line :: "string \<Rightarrow> bool" where
  "well_formed_index_line raw =
     (is_index_line raw \<and>
      (case index_last (split_ws (strip raw)) of
         None \<Rightarrow> False
       | Some tok \<Rightarrow>
           (case split_on CHR '':'' tok of
              [mf, sf, ff] \<Rightarrow>
                (case py_int mf of
                   None \<Rightarrow> False
                 | Some m \<Rightarrow>
                     (case py_int sf of
                        None \<Rightarrow> False
                      | Some s \<Rightarrow>
                          (case py_int ff of
                             None \<Rightarrow> False
                           | Some f \<Rightarrow>
                               0 \<le> m \<and> 0 \<le> s \<and> 0 \<le> f \<and> m * 60 + s + f \<le> 10 ^ 9)))
            | _ \<Rightarrow> False)))"

text \<open>The last value that a sequence of assignments leaves in a variable.\<close>

definition latest :: "'a option \<Rightarrow> 'a option list \<Rightarrow> 'a option" where
  "latest init xs = foldl (\<lambda>acc x. case x of Some v \<Rightarrow> Some v | None \<Rightarrow> acc) init xs"

text \<open>
  The seed of a run of lines without a TRACK line: the last title and the last time set
  in it, when both are set.
\<close>

definition block_seed :: "string list \<Rightarrow> seed option" where
  "block_seed body =
     (case (latest None (map title_of_line body), latest None (map time_of_line body)) of
        (Some t, Some tm) \<Rightarrow> Some (t, tm)
      | _ \<Rightarrow> None)"

definition seeds_of :: "string list \<Rightarrow> seed list" where
  "seeds_of body = (case block_seed body of Some sd \<Rightarrow> [sd] | None \<Rightarrow> [])"

text \<open>A TRACK block is its TRACK line and the lines after it up to the next TRACK line.\<close>

definition join_blocks :: "(string \<times> string list) list \<Rightarrow> string list" where
  "join_blocks blocks = concat (map (\<lambda>(t, body). t # body) blocks)"

definition track_blocks :: "(string \<times> string list) list \<Rightarrow> bool" where
  "track_blocks blocks =
     list_all (\<lambda>(t, body). is_track_line t \<and> list_all (\<lambda>l. \<not> is_track_line l) body) blocks"

section \<open>Example inputs\<close>

text \<open>A title and an INDEX 01 line, and no TRACK line.\<close>

definition cue_without_track :: string where
  "cue_without_track = ''TITLE \"Intro\"\<newline>INDEX 01 00:00:00\<newline>''"

text \<open>A title and an INDEX 01 line before the only TRACK block.\<close>

definition cue_pair_before_track :: string where
  "cue_pair_before_track =
     ''TITLE \"Album\"\<newline>INDEX 01 00:00:00\<newline>'' @
     ''TRACK 01 AUDIO\<newline>  TITLE \"Main\"\<newline>  INDEX 01 03:00:00\<newline>''"

text \<open>Two tracks, Intro at 00:00:00 and Main at 03:00:00, after a FILE line.\<close>

definition two_track_header :: "string list" where
  "two_track_header = [''FILE \"album.mp3\" MP3\<newline>'']"

definition two_track_blocks :: "(string \<times> string list) list" where
  "two_track_blocks =
     [(''  TRACK 01 AUDIO\<newline>'',
       [''    TITLE \"Intro\"\<newline>'', ''    INDEX 01 00:00:00\<newline>'']),
      (''  TRACK 02 AUDIO\<newline>'',
       [''    TITLE \"Main\"\<newline>'', ''    INDEX 01 03:00:00\<newline>''])]"






text \<open>The seeds Intro at 0 ms and Main at 180000 ms.\<close>

definition intro_main :: "seed list" where
  "intro_main = [(''Intro'', 0), (''Main'', 180000)]"

text \<open>A container that already has a table of contents and two chapter frames.\<close>

definition old_tags :: tags where
  "old_tags =
     [(''TIT2'', Other_frame ''TIT2''),
      (''CTOC:toc'', CTOC ''toc'' 3 [''chp01''] []),
      (''CHAP:chp01'', CHAP ''chp01'' 0 1000 0 0 []),
      (''CHAP:chp07'', CHAP ''chp07'' 0 1000 0 0 [])]"

text \<open>
  A file system with an MP3 file and the two-track CUE file beside it, and environments:
  one in which everything works, and four in which one or two operations fail.
\<close>

definition mp3_bytes :: bytes where
  "mp3_bytes = ''mp3 audio bytes''"

definition example_world :: world where
  "example_world =
     \<lparr>files = [''a.mp3'' \<mapsto> mp3_bytes,
               ''a.mp3.cue'' \<mapsto> concat (two_track_header @ join_blocks two_track_blocks)],
      printed = []\<rparr>"

definition good_env :: env where
  "good_env =
     \<lparr>id3_load = (\<lambda>content. No_header),
      info_length = (\<lambda>content. Some 300),
      id3_save = (\<lambda>tg content. Saved (''ID3 '' @ content)),
      backup_copy = Copy_ok,
      restore_copy = Copy_ok,
      remove_ok = (\<lambda>path. True)\<rparr>"

definition env_save_fails :: env where
  "env_save_fails = good_env\<lparr>id3_save := (\<lambda>tg content. Save_error ''half written'')\<rparr>"

definition env_save_and_restore_fail :: env where
  "env_save_and_restore_fail = env_save_fails\<lparr>restore_copy := Copy_fails None\<rparr>"

definition env_backup_fails :: env where
  "env_backup_fails = good_env\<lparr>backup_copy := Copy_fails None\<rparr>"


text \<open>The world after the messages of lines 99 to 119.\<close>

definition framed :: "seed list \<Rightarrow> world \<Rightarrow> world" where
  "framed chs w = w\<lparr>printed := printed w @ frame_messages chs\<rparr>"

section \<open>Properties of the timecode conversion\<close>

subsection \<open>Integer literals and the limit on their digits\<close>

lemma digit_not_space: "is_digit c \<Longrightarrow> \<not> is_space c"
  by (auto simp: is_digit_def is_space_def)

lemma dropWhile_none: "\<forall>x \<in> set xs. \<not> P x \<Longrightarrow> dropWhile P xs = xs"
  by (cases xs) simp_all

lemma strip_digits: "list_all is_digit ds \<Longrightarrow> strip ds = ds"
  by (simp add: strip_def dropWhile_none digit_not_space list_all_iff)

lemma digits_of_digits: "ds \<noteq> [] \<Longrightarrow> list_all is_digit ds \<Longrightarrow> digits_of ds = Some ds"
  by (induction ds rule: digits_of.induct) (auto simp: is_digit_def)

lemma py_int_digits:
  assumes "ds \<noteq> []" and "list_all is_digit ds"
  shows "py_int ds = literal_value ds"
proof -
  obtain c cs where ds: "ds = c # cs" using assms(1) by (cases ds) auto
  with assms(2) have "is_digit c" by simp
  then have "c \<noteq> CHR ''-''" "c \<noteq> CHR ''+''" by (auto simp: is_digit_def)
  moreover have "strip (c # cs) = c # cs" using strip_digits [OF assms(2)] by (simp add: ds)
  moreover have "digits_of (c # cs) = Some (c # cs)"
    using digits_of_digits [OF assms] by (simp add: ds)
  ultimately show ?thesis by (simp add: py_int_def ds)
qed

text \<open>
  A field of 4300 zeros is the integer 0; a field of 4301 zeros is no integer, so an
  INDEX 01 line with such a field leaves the time as it is.
\<close>

lemma py_int_digit_limit:
  "py_int (replicate 4300 CHR ''0'') = Some 0 \<and> py_int (replicate 4301 CHR ''0'') = None"
proof -
  have "foldl (\<lambda>acc c. 10 * acc + digit_val c) 0 (replicate n CHR ''0'') = 0" for n
    by (induction n) (simp_all add: digit_val_def)
  then have z: "int_of_digits (replicate n CHR ''0'') = 0" for n
    by (simp add: int_of_digits_def)
  have d: "list_all is_digit (replicate n CHR ''0'')" for n
    by (simp add: list_all_iff is_digit_def)
  have "py_int (replicate 4300 CHR ''0'') = literal_value (replicate 4300 CHR ''0'')"
    by (rule py_int_digits [OF _ d]) simp
  moreover have "py_int (replicate 4301 CHR ''0'') = literal_value (replicate 4301 CHR ''0'')"
    by (rule py_int_digits [OF _ d]) simp
  ultimately show ?thesis
    by (simp add: literal_value_def max_str_digits_def z)
qed

subsection \<open>The double arithmetic\<close>

lemma pow2_powi: "pow2 e = 2 powi e"
  by (simp add: pow2_def power_int_def power_one_over inverse_eq_divide)

lemma bitlen_bounds:
  "0 < n \<Longrightarrow> 1 \<le> bitlen n \<and> 2 ^ nat (bitlen n - 1) \<le> n \<and> n < 2 ^ nat (bitlen n)"
proof (induction n rule: bitlen.induct)
  case (1 n)
  show ?case
  proof (cases "n div 2 = 0")
    case True
    with "1.prems" have n: "n = 1" by presburger
    have "bitlen 0 = 0" by (subst bitlen.simps) simp
    then have "bitlen 1 = 1" by (subst bitlen.simps) simp
    with n show ?thesis by simp
  next
    case False
    with "1.prems" have pos: "0 < n div 2" by presburger
    define b where "b = bitlen (n div 2)"
    from "1.IH" "1.prems" pos have ih: "1 \<le> b" "2 ^ nat (b - 1) \<le> n div 2" "n div 2 < 2 ^ nat b"
      by (simp_all add: b_def)
    have bn: "bitlen n = b + 1"
      using "1.prems" by (subst bitlen.simps) (simp add: b_def)
    have nb: "nat b = Suc (nat (b - 1))" using ih(1) by simp
    have "(2::int) ^ nat b = 2 * 2 ^ nat (b - 1)" by (subst nb) simp
    also have "\<dots> \<le> 2 * (n div 2)" using ih(2) by simp
    also have "\<dots> \<le> n" by presburger
    finally have lo: "2 ^ nat b \<le> n" .
    have "n \<le> 2 * (n div 2) + 1" by presburger
    also have "\<dots> < 2 * 2 ^ nat b" using ih(3) by simp
    finally have hi: "n < 2 ^ nat (b + 1)" using ih(1) by (simp add: nat_add_distrib)
    from lo hi ih(1) show ?thesis by (simp add: bn)
  qed
qed

lemma bitlen_bounds_rat:
  assumes "0 < n"
  shows "(2::rat) powi (bitlen n - 1) \<le> of_int n" and "(of_int n :: rat) < 2 powi (bitlen n)"
proof -
  from bitlen_bounds [OF assms] have b: "1 \<le> bitlen n" and lo: "2 ^ nat (bitlen n - 1) \<le> n"
    and hi: "n < 2 ^ nat (bitlen n)" by simp_all
  have "(2::rat) powi (bitlen n - 1) = of_int (2 ^ nat (bitlen n - 1))"
    using b by (simp add: power_int_def)
  also have "\<dots> \<le> of_int n" using lo by (simp only: of_int_le_iff)
  finally show "(2::rat) powi (bitlen n - 1) \<le> of_int n" .
  have "(of_int n :: rat) < of_int (2 ^ nat (bitlen n))" using hi by (simp only: of_int_less_iff)
  also have "\<dots> = 2 powi (bitlen n)" using b by (simp add: power_int_def)
  finally show "(of_int n :: rat) < 2 powi (bitlen n)" .
qed

lemma ilog2_bounds:
  assumes "0 < x"
  shows "2 powi (ilog2 x) \<le> x" and "x < 2 powi (ilog2 x + 1)"
proof -
  obtain p q where pq: "quotient_of x = (p, q)" by (cases "quotient_of x")
  then have q: "0 < q" by (rule quotient_of_denom_pos)
  from pq have x: "x = of_int p / of_int q" by (rule quotient_of_div)
  with assms q have p: "0 < p" by (simp add: zero_less_divide_iff)
  define d where "d = bitlen p - bitlen q"
  have e: "ilog2 x = (if 2 powi d \<le> x then d else d - 1)"
    by (simp add: ilog2_def pq d_def pow2_powi)
  have qr: "(0::rat) < of_int q" using q by simp
  have "x * of_int q = of_int p" using x q by simp
  have up: "x < 2 powi (d + 1)"
  proof -
    have "(of_int p :: rat) < 2 powi (bitlen p)" by (rule bitlen_bounds_rat [OF p])
    also have "\<dots> = 2 powi (d + 1) * 2 powi (bitlen q - 1)"
      by (simp add: d_def flip: power_int_add)
    also have "\<dots> \<le> 2 powi (d + 1) * of_int q"
      by (intro mult_left_mono bitlen_bounds_rat [OF q]) simp
    finally show ?thesis using qr by (simp add: x pos_divide_less_eq)
  qed
  have low: "2 powi (d - 1) < x"
  proof -
    have "(2::rat) powi (d - 1) * of_int q < 2 powi (d - 1) * 2 powi (bitlen q)"
      by (intro mult_strict_left_mono bitlen_bounds_rat [OF q]) simp
    also have "\<dots> = 2 powi (bitlen p - 1)"
      by (simp add: d_def flip: power_int_add)
    also have "\<dots> \<le> of_int p" by (rule bitlen_bounds_rat [OF p])
    finally show ?thesis using qr by (simp add: x pos_less_divide_eq)
  qed
  show "2 powi (ilog2 x) \<le> x" using low by (auto simp: e)
  show "x < 2 powi (ilog2 x + 1)" using up by (auto simp: e not_le)
qed

lemma round_half_even_error: "\<bar>of_int (round_half_even r) - r\<bar> \<le> 1 / 2"
proof -
  define d where "d = r - of_int \<lfloor>r\<rfloor>"
  have d: "0 \<le> d" "d < 1" unfolding d_def by linarith+
  have r: "r = of_int \<lfloor>r\<rfloor> + d" by (simp add: d_def)
  consider "d < 1 / 2" | "1 / 2 < d" | "d = 1 / 2" by linarith
  then show ?thesis
  proof cases
    case 1
    then have "round_half_even r = \<lfloor>r\<rfloor>"
      by (simp add: round_half_even_def Let_def d_def)
    then have eq: "of_int (round_half_even r) - r = - d" by (simp add: d_def)
    show ?thesis by (simp only: eq) (use 1 d in \<open>simp add: abs_if\<close>)
  next
    case 2
    then have "round_half_even r = \<lfloor>r\<rfloor> + 1"
      by (simp add: round_half_even_def Let_def d_def)
    then have eq: "of_int (round_half_even r) - r = 1 - d" by (simp add: d_def)
    show ?thesis by (simp only: eq) (use 2 d in \<open>simp add: abs_if\<close>)
  next
    case 3
    then have "round_half_even r = \<lfloor>r\<rfloor> \<or> round_half_even r = \<lfloor>r\<rfloor> + 1"
      by (simp add: round_half_even_def Let_def d_def)
    then have "of_int (round_half_even r) - r = - d \<or> of_int (round_half_even r) - r = 1 - d"
      by (auto simp: d_def)
    with 3 show ?thesis by (auto simp: abs_if)
  qed
qed

lemma powi_less_exp:
  assumes "(2::rat) powi a < 2 powi b"
  shows "a < b"
proof (rule ccontr)
  assume "\<not> a < b"
  then have "b \<le> a" by simp
  then have "(2::rat) powi b \<le> 2 powi a" by (intro power_int_increasing) simp_all
  with assms show False by simp
qed

lemma round_double_pos:
  assumes lo: "2 powi (- 1022) \<le> x" and hi: "x < 2 powi 1000"
  shows "\<exists>y. round_double x = Some y \<and> \<bar>y - x\<bar> \<le> x * ulp_half \<and> 0 < y"
proof -
  have x: "0 < x"
    using lo by (rule less_le_trans [rotated]) simp
  define e where "e = ilog2 x"
  have b: "2 powi e \<le> x" "x < 2 powi (e + 1)"
    unfolding e_def by (rule ilog2_bounds [OF x])+
  have "(2::rat) powi (- 1022) < 2 powi (e + 1)" using lo b(2) by simp
  then have e: "- 1022 < e + 1" by (rule powi_less_exp)
  then have m: "max (e - 52) (- 1074) = e - 52" by simp
  define q :: rat where "q = 2 powi (e - 52)"
  have q: "0 < q" by (simp add: q_def)
  define n where "n = round_half_even (x / q)"
  define y where "y = of_int n * q"
  have "y - x = (of_int n - x / q) * q"
    using q by (simp add: y_def field_simps)
  then have "\<bar>y - x\<bar> = \<bar>of_int n - x / q\<bar> * q"
    using q by (simp add: abs_mult)
  also have "\<dots> \<le> 1 / 2 * q"
    unfolding n_def by (intro mult_right_mono round_half_even_error) (use q in simp)
  also have "\<dots> = 2 powi e * ulp_half"
  proof -
    have "(2::rat) powi e = 2 powi ((e - 52) + 52)" by simp
    also have "\<dots> = 2 powi (e - 52) * 2 powi 52" by (rule power_int_add) simp
    finally show ?thesis by (simp add: q_def ulp_half_def)
  qed
  also have "\<dots> \<le> x * ulp_half"
    by (intro mult_right_mono b) (simp add: ulp_half_def)
  finally have err: "\<bar>y - x\<bar> \<le> x * ulp_half" .
  have small: "x * ulp_half \<le> x / 2" using x by (simp add: ulp_half_def)
  from err small x have ypos: "0 < y" by linarith
  from err small x have "y \<le> 2 * x" by linarith
  also have "\<dots> < 2 powi 1001"
  proof -
    have "(2::rat) powi 1001 = 2 powi (1 + 1000)" by simp
    also have "\<dots> = 2 powi 1 * 2 powi 1000" by (rule power_int_add) simp
    finally have "(2::rat) powi 1001 = 2 * 2 powi 1000" by simp
    with hi show ?thesis by simp
  qed
  finally have "y < 2 powi 1001" .
  moreover have "2 powi (ilog2 y) \<le> y" by (rule ilog2_bounds [OF ypos])
  ultimately have "(2::rat) powi (ilog2 y) < 2 powi 1001" by simp
  then have "ilog2 y < 1001" by (rule powi_less_exp)
  then have fin: "\<not> 1024 \<le> ilog2 \<bar>y\<bar>" using ypos by simp
  have "round_double x = Some y"
    using x fin
    by (simp add: round_double_def Let_def e_def [symmetric] m pow2_powi q_def [symmetric]
        n_def [symmetric] y_def [symmetric])
  with err ypos show ?thesis by blast
qed

lemma ulp_half_range: "0 < ulp_half" "ulp_half < 1"
  by (simp_all add: ulp_half_def)

lemma approx_0: "approx 0 x x"
  by (simp add: approx_def)

lemma approx_weaken:
  assumes "approx k x y" and "k \<le> n" and "0 \<le> x"
  shows "approx n x y"
proof -
  have "(1 - ulp_half) ^ n \<le> (1 - ulp_half) ^ k"
    using ulp_half_range assms(2) by (intro power_decreasing) simp_all
  then have "(1 - ulp_half) ^ n * x \<le> (1 - ulp_half) ^ k * x"
    using assms(3) by (rule mult_right_mono)
  moreover have "(1 + ulp_half) ^ k \<le> (1 + ulp_half) ^ n"
    using ulp_half_range assms(2) by (intro power_increasing) simp_all
  then have "(1 + ulp_half) ^ k * x \<le> (1 + ulp_half) ^ n * x"
    using assms(3) by (rule mult_right_mono)
  ultimately show ?thesis using assms(1) by (auto simp: approx_def)
qed

lemma approx_add:
  assumes "approx n x y" and "approx n x' y'"
  shows "approx n (x + x') (y + y')"
  using assms by (simp add: approx_def distrib_left)

lemma approx_mult:
  assumes "approx n x y" and "0 \<le> c"
  shows "approx n (x * c) (y * c)"
proof -
  from assms have "(1 - ulp_half) ^ n * x * c \<le> y * c" "y * c \<le> (1 + ulp_half) ^ n * x * c"
    by (auto simp: approx_def intro: mult_right_mono)
  then show ?thesis by (simp add: approx_def mult.assoc)
qed

lemma pow4_bounds:
  "1 / 2 \<le> (1 - ulp_half) ^ 4" "(1 + ulp_half) ^ 4 \<le> 2"
  "1 - 5 * ulp_half \<le> (1 - ulp_half) ^ 4" "(1 + ulp_half) ^ 4 \<le> 1 + 5 * ulp_half"
  by (simp_all add: ulp_half_def power4_eq_xxxx)

lemma approx_rough:
  assumes "approx k x y" and "k \<le> 4" and "0 \<le> x"
  shows "x / 2 \<le> y" and "y \<le> 2 * x"
proof -
  from approx_weaken [OF assms(1) assms(2) assms(3)]
  have a: "(1 - ulp_half) ^ 4 * x \<le> y" "y \<le> (1 + ulp_half) ^ 4 * x"
    by (simp_all add: approx_def)
  have "1 / 2 * x \<le> (1 - ulp_half) ^ 4 * x"
    using assms(3) pow4_bounds(1) by (rule mult_right_mono [rotated])
  with a(1) show "x / 2 \<le> y" by simp
  have "(1 + ulp_half) ^ 4 * x \<le> 2 * x"
    using assms(3) pow4_bounds(2) by (rule mult_right_mono [rotated])
  with a(2) show "y \<le> 2 * x" by simp
qed

lemma round_double_approx:
  assumes a: "approx k x y" and k: "k \<le> 4" and x: "x = 0 \<or> 1 / 300 \<le> x" and top: "x \<le> 2 ^ 50"
  shows "\<exists>z. round_double y = Some z \<and> approx (Suc k) x z"
proof (cases "x = 0")
  case True
  with a have "y = 0" by (simp add: approx_def)
  with True show ?thesis by (simp add: round_double_def approx_def)
next
  case False
  with x have x1: "1 / 300 \<le> x" by simp
  then have x0: "0 \<le> x" by simp
  note r = approx_rough [OF a k x0]
  have "(2::rat) powi (- 1022) \<le> 2 powi (- 10)" by (intro power_int_increasing) simp_all
  also have "\<dots> \<le> 1 / 600" by (simp add: power_int_def power_divide)
  also have "\<dots> \<le> y" using r(1) x1 by simp
  finally have lo: "2 powi (- 1022) \<le> y" .
  have "y \<le> 2 ^ 51" using r(2) top by simp
  also have "(2::rat) ^ 51 = 2 powi 51" by simp
  also have "\<dots> < 2 powi 1000" by (intro power_int_strict_increasing) simp_all
  finally have hi: "y < 2 powi 1000" .
  from round_double_pos [OF lo hi] obtain z where z: "round_double y = Some z"
    and err: "\<bar>z - y\<bar> \<le> y * ulp_half" by blast
  from err have zl: "(1 - ulp_half) * y \<le> z" and zu: "z \<le> (1 + ulp_half) * y"
    by (simp_all add: abs_le_iff algebra_simps)
  have "(1 - ulp_half) * ((1 - ulp_half) ^ k * x) \<le> (1 - ulp_half) * y"
    using a ulp_half_range by (intro mult_left_mono) (simp_all add: approx_def)
  with zl have l: "(1 - ulp_half) ^ Suc k * x \<le> z" by (simp add: mult.assoc)
  have "(1 + ulp_half) * y \<le> (1 + ulp_half) * ((1 + ulp_half) ^ k * x)"
    using a ulp_half_range by (intro mult_left_mono) (simp_all add: approx_def)
  with zu have u: "z \<le> (1 + ulp_half) ^ Suc k * x" by (simp add: mult.assoc)
  from z l u show ?thesis by (auto simp: approx_def)
qed

lemma timecode_ms_approx:
  assumes m: "0 \<le> m" and s: "0 \<le> s" and f: "0 \<le> f" and top: "m * 60 + s + f \<le> 10 ^ 9"
  shows "\<exists>c. timecode_ms m s f = Some (py_trunc c) \<and> approx 4 (exact_ms m s f) c"
proof -
  define M where "M = m * 60 + s"
  have M: "0 \<le> M" "M + f \<le> 10 ^ 9" using m s top by (simp_all add: M_def)
  have fr: "(of_int f :: rat) = 0 \<or> 1 / 300 \<le> (of_int f :: rat)"
  proof (cases "f = 0")
    case False
    with f have "1 \<le> f" by simp
    then have "(1::rat) \<le> of_int f" by (simp only: of_int_1_le_iff)
    then show ?thesis by simp
  qed simp
  have Mr: "(of_int M :: rat) = 0 \<or> 1 / 300 \<le> (of_int M :: rat)"
  proof (cases "M = 0")
    case False
    with M have "1 \<le> M" by simp
    then have "(1::rat) \<le> of_int M" by (simp only: of_int_1_le_iff)
    then show ?thesis by simp
  qed simp
  have f0: "(0::rat) \<le> of_int f" and M0: "(0::rat) \<le> of_int M" using f M by simp_all
  have "f \<le> 10 ^ 9" "M \<le> 10 ^ 9" using M f by simp_all
  then have "(of_int f :: rat) \<le> of_int (10 ^ 9)" "(of_int M :: rat) \<le> of_int (10 ^ 9)"
    by (simp_all only: of_int_le_iff)
  then have ftop: "(of_int f :: rat) \<le> 10 ^ 9" and Mtop: "(of_int M :: rat) \<le> 10 ^ 9"
    by simp_all
  have "(of_int (M + f) :: rat) \<le> of_int (10 ^ 9)"
    using M(2) by (simp only: of_int_le_iff)
  then have MFtop: "(of_int M + of_int f :: rat) \<le> 10 ^ 9" by simp
  have big: "(10::rat) ^ 9 \<le> 2 ^ 50" "(10::rat) ^ 12 \<le> 2 ^ 50" by simp_all
  \<comment> \<open>the conversion of \<open>f\<close>\<close>
  from round_double_approx [OF approx_0, of "of_int f"] fr ftop big
  obtain ff where ff: "round_double (of_int f) = Some ff" and aff: "approx 1 (of_int f) ff"
    by auto
  \<comment> \<open>the division\<close>
  have "approx 1 (of_int f * (1 / 75)) (ff * (1 / 75))"
    by (rule approx_mult [OF aff]) simp
  then have a0: "approx 1 (of_int f / 75) (ff / 75)" by simp
  have fr75: "(of_int f / 75 :: rat) = 0 \<or> 1 / 300 \<le> (of_int f / 75 :: rat)"
  proof (cases "f = 0")
    case False
    with f have "1 \<le> f" by simp
    then have "(1::rat) \<le> of_int f" by (simp only: of_int_1_le_iff)
    then show ?thesis by simp
  qed simp
  have "(of_int f / 75 :: rat) \<le> 2 ^ 50" using ftop big f0 by simp
  from round_double_approx [OF a0 _ fr75 this]
  obtain a where a: "round_double (ff / 75) = Some a" and aa: "approx 2 (of_int f / 75) a"
    by (auto simp: numeral_2_eq_2)
  \<comment> \<open>the conversion of \<open>m * 60 + s\<close>\<close>
  from round_double_approx [OF approx_0, of "of_int M"] Mr Mtop big
  obtain ms where ms: "round_double (of_int M) = Some ms" and ams: "approx 1 (of_int M) ms"
    by auto
  \<comment> \<open>the sum\<close>
  have f75: "(0::rat) \<le> of_int f / 75" using f0 by simp
  have "approx 2 (of_int M) ms" by (rule approx_weaken [OF ams _ M0]) simp
  from approx_add [OF this aa] have b0: "approx 2 (of_int M + of_int f / 75) (ms + a)" .
  have sumr: "(of_int M + of_int f / 75 :: rat) = 0 \<or> 1 / 300 \<le> (of_int M + of_int f / 75 :: rat)"
    using fr75 Mr f75 M0 by linarith
  have "(of_int f / 75 :: rat) \<le> of_int f" using f0 by simp
  with MFtop have sumtop: "(of_int M + of_int f / 75 :: rat) \<le> 10 ^ 9" by linarith
  then have "(of_int M + of_int f / 75 :: rat) \<le> 2 ^ 50" using big by simp
  from round_double_approx [OF b0 _ sumr this]
  obtain b where b: "round_double (ms + a) = Some b"
    and ab: "approx 3 (of_int M + of_int f / 75) b"
    by (auto simp: numeral_3_eq_3 numeral_2_eq_2)
  \<comment> \<open>the product\<close>
  have c0: "approx 3 (exact_ms m s f) (b * 1000)"
    unfolding exact_ms_def M_def [symmetric] by (rule approx_mult [OF ab]) simp
  have xr: "exact_ms m s f = 0 \<or> 1 / 300 \<le> exact_ms m s f"
    using sumr unfolding exact_ms_def M_def [symmetric] by auto
  have "exact_ms m s f \<le> 10 ^ 12"
    using sumtop unfolding exact_ms_def M_def [symmetric] by simp
  then have "exact_ms m s f \<le> 2 ^ 50" using big by simp
  from round_double_approx [OF c0 _ xr this]
  obtain c where c: "round_double (b * 1000) = Some c" and ac: "approx 4 (exact_ms m s f) c"
    by (auto simp: numeral_3_eq_3 eval_nat_numeral)
  have "timecode_ms m s f = Some (py_trunc c)"
    using ms [unfolded M_def] by (simp add: timecode_ms_def ff a b c)
  with ac show ?thesis by blast
qed

lemma exact_ms_thirds: "exact_ms m s f = of_int (3000 * (m * 60 + s) + 40 * f) / 3"
  by (simp add: exact_ms_def field_simps)

lemma timecode_ms_accuracy:
  assumes m: "0 \<le> m" and s: "0 \<le> s" and f: "0 \<le> f" and top: "m * 60 + s + f \<le> 10 ^ 9"
  shows "\<exists>t. timecode_ms m s f = Some t
           \<and> \<lfloor>exact_ms m s f\<rfloor> - 1 \<le> t \<and> t \<le> \<lfloor>exact_ms m s f\<rfloor>
           \<and> (\<not> 3 dvd f \<longrightarrow> t = \<lfloor>exact_ms m s f\<rfloor>)"
proof -
  define X where "X = exact_ms m s f"
  define K where "K = 3000 * (m * 60 + s) + 40 * f"
  from timecode_ms_approx [OF assms] obtain c
    where t: "timecode_ms m s f = Some (py_trunc c)" and ac: "approx 4 X c"
    unfolding X_def by blast
  have XK: "X = of_int K / 3" unfolding X_def K_def by (rule exact_ms_thirds)
  have K0: "0 \<le> K" using m s f by (simp add: K_def)
  have "K \<le> 3000 * 10 ^ 9" using m s f top by (simp add: K_def)
  then have "(of_int K :: rat) \<le> of_int (3000 * 10 ^ 9)" by (simp only: of_int_le_iff)
  then have Xtop: "X \<le> 10 ^ 12" by (simp add: XK)
  have X0: "0 \<le> X" using K0 by (simp add: XK)
  have "5 * ulp_half * X \<le> 5 * ulp_half * 10 ^ 12"
    using Xtop ulp_half_range by (intro mult_left_mono) simp_all
  also have "\<dots> < 1 / 3" by (simp add: ulp_half_def)
  finally have small: "5 * ulp_half * X < 1 / 3" .
  from ac have c1: "(1 - ulp_half) ^ 4 * X \<le> c" and c2: "c \<le> (1 + ulp_half) ^ 4 * X"
    by (simp_all add: approx_def)
  have "(1 - 5 * ulp_half) * X \<le> (1 - ulp_half) ^ 4 * X"
    using X0 pow4_bounds(3) by (rule mult_right_mono [rotated])
  with c1 have "X - 5 * ulp_half * X \<le> c" by (simp add: algebra_simps)
  with small have low: "X - 1 / 3 < c" by linarith
  have "(1 + ulp_half) ^ 4 * X \<le> (1 + 5 * ulp_half) * X"
    using X0 pow4_bounds(4) by (rule mult_right_mono [rotated])
  with c2 have "c \<le> X + 5 * ulp_half * X" by (simp add: algebra_simps)
  with small have high: "c < X + 1 / 3" by linarith
  have c0: "0 \<le> c"
  proof -
    have "0 \<le> (1 - ulp_half) ^ 4 * X" using X0 ulp_half_range by simp
    with c1 show ?thesis by simp
  qed
  define t where "t = \<lfloor>c\<rfloor>"
  have tr: "py_trunc c = t" using c0 by (simp add: py_trunc_def t_def)
  have tc: "of_int t \<le> c" "c < of_int t + 1" unfolding t_def by linarith+
  have "(of_int (3 * t) :: rat) < of_int (K + 1)"
    using tc(1) high by (simp add: XK)
  then have up: "3 * t < K + 1" by (simp only: of_int_less_iff)
  have "(of_int (K - 1) :: rat) < of_int (3 * t + 3)"
    using tc(2) low by (simp add: XK)
  then have dn: "K - 1 < 3 * t + 3" by (simp only: of_int_less_iff)
  have fl: "\<lfloor>X\<rfloor> = K div 3"
    unfolding XK using floor_divide_of_int_eq [of K 3, where ?'a = rat] by simp
  have 1: "K div 3 - 1 \<le> t" using dn by presburger
  have 2: "t \<le> K div 3" using up by presburger
  have 3: "t = K div 3" if "\<not> 3 dvd f"
  proof -
    define q where "q = 1000 * (m * 60 + s) + 13 * f"
    have "K = f + 3 * q" by (simp add: K_def q_def)
    with that have "\<not> 3 dvd K" by (simp add: dvd_add_left_iff)
    with up dn show ?thesis by presburger
  qed
  from t tr 1 2 3 show ?thesis by (simp add: X_def [symmetric] fl)
qed

lemma index_time_fields:
  assumes "index_last (split_ws line) = Some tok"
    and "split_on CHR '':'' tok = [mf, sf, ff]"
    and "py_int mf = Some m" "py_int sf = Some s" "py_int ff = Some f"
  shows "index_time line = timecode_ms m s f"
  using assms by (simp add: index_time_def)






lemma well_formed_index_line_time:
  assumes "well_formed_index_line raw"
  shows "time_of_line raw \<noteq> None"
proof -
  from assms obtain tok mf sf ff m s f where i: "is_index_line raw"
    and tok: "index_last (split_ws (strip raw)) = Some tok"
    and fields: "split_on CHR '':'' tok = [mf, sf, ff]"
    and ints: "py_int mf = Some m" "py_int sf = Some s" "py_int ff = Some f"
    and range: "0 \<le> m" "0 \<le> s" "0 \<le> f" "m * 60 + s + f \<le> 1000000000"
    by (auto simp: well_formed_index_line_def split: option.splits list.splits)
  from range have "m * 60 + s + f \<le> 10 ^ 9" by simp
  from timecode_ms_accuracy [OF range(1-3) this]
  obtain t where "timecode_ms m s f = Some t" by blast
  with index_time_fields [OF tok fields ints] i show ?thesis
    by (simp add: time_of_line_def)
qed

lemma quoted_title_line_title: "quoted_title_line raw \<Longrightarrow> title_of_line raw \<noteq> None"
  by (simp add: quoted_title_line_def title_of_line_def)

section \<open>Properties of the parser\<close>

lemma split_on_length: "length (split_on sep s) = Suc (count_list s sep)"
  by (induction s) (auto split: list.splits)

text \<open>
  The index 1 of line 53 is in range whenever the test of line 52 holds, so the TITLE
  branch raises nothing.
\<close>

lemma title_index_in_range: "dquote \<in> set line \<Longrightarrow> 1 < length (split_on dquote line)"
  by (cases "count_list line dquote") (auto simp: split_on_length count_list_0_iff)

lemma parse_line_cases:
  "parse_line st raw =
     (if is_track_line raw
      then \<lparr>chapters = flush st, current_title = None, current_time = None\<rparr>
      else st\<lparr>current_title :=
                (case title_of_line raw of Some t \<Rightarrow> Some t | None \<Rightarrow> current_title st),
              current_time :=
                (case time_of_line raw of Some t \<Rightarrow> Some t | None \<Rightarrow> current_time st)\<rparr>)"
  by (auto simp: parse_line_def is_track_line_def is_title_line_def is_index_line_def
        title_of_line_def time_of_line_def Let_def split: option.splits)

lemma run_body:
  "\<forall>l \<in> set body. \<not> is_track_line l \<Longrightarrow>
   foldl parse_line st body =
     \<lparr>chapters = chapters st,
      current_title = latest (current_title st) (map title_of_line body),
      current_time = latest (current_time st) (map time_of_line body)\<rparr>"
proof (induction body arbitrary: st)
  case Nil
  then show ?case by (simp add: latest_def)
next
  case (Cons l body)
  then show ?case by (simp add: parse_line_cases latest_def)
qed

lemma flush_init [simp]: "flush init_state = []"
  by (simp add: flush_def init_state_def)

lemma parse_body:
  assumes "\<forall>l \<in> set body. \<not> is_track_line l"
  shows "parse_cue_lines body = seeds_of body"
  using assms
  by (simp add: parse_cue_lines_def run_body flush_def seeds_of_def block_seed_def init_state_def
           split: option.splits)

lemma chapters_prefix:
  "foldl parse_line (st\<lparr>chapters := cs @ chapters st\<rparr>) ls =
     (foldl parse_line st ls)\<lparr>chapters := cs @ chapters (foldl parse_line st ls)\<rparr>"
proof (induction ls arbitrary: st)
  case Nil
  show ?case by simp
next
  case (Cons l ls)
  have step: "parse_line (st\<lparr>chapters := cs @ chapters st\<rparr>) l =
      (parse_line st l)\<lparr>chapters := cs @ chapters (parse_line st l)\<rparr>"
    by (simp add: parse_line_cases flush_def split: option.splits)
  show ?case by (simp add: step Cons.IH)
qed

lemma flush_prefix: "flush (st\<lparr>chapters := cs @ chapters st\<rparr>) = cs @ flush st"
  by (simp add: flush_def split: option.splits)

text \<open>A TRACK line cuts the parse in two: what comes before it is flushed there.\<close>

lemma parse_at_track:
  assumes "is_track_line t"
  shows "parse_cue_lines (pre @ t # rest) = parse_cue_lines pre @ parse_cue_lines rest"
proof -
  let ?st = "foldl parse_line init_state pre"
  have "parse_line ?st t = init_state\<lparr>chapters := flush ?st @ chapters init_state\<rparr>"
    using assms by (simp add: parse_line_cases init_state_def)
  then have "foldl parse_line init_state (pre @ t # rest) =
      (foldl parse_line init_state rest)
        \<lparr>chapters := flush ?st @ chapters (foldl parse_line init_state rest)\<rparr>"
    by (simp add: chapters_prefix)
  then show ?thesis
    by (simp add: parse_cue_lines_def flush_prefix)
qed

lemma track_blocks_Cons:
  "track_blocks ((t, body) # blocks) \<longleftrightarrow>
     is_track_line t \<and> (\<forall>l \<in> set body. \<not> is_track_line l) \<and> track_blocks blocks"
  by (simp add: track_blocks_def list_all_iff)

text \<open>The parse of a header and TRACK blocks is the seeds of each part, joined in order.\<close>

lemma parse_blocks:
  assumes "track_blocks blocks"
  shows "parse_cue_lines (pre @ join_blocks blocks) =
           parse_cue_lines pre @ concat (map (\<lambda>(t, body). seeds_of body) blocks)"
  using assms
proof (induction blocks arbitrary: pre)
  case Nil
  show ?case by (simp add: join_blocks_def)
next
  case (Cons b blocks)
  obtain t body where b: "b = (t, body)" by (cases b)
  from Cons.prems b have t: "is_track_line t" and body: "\<forall>l \<in> set body. \<not> is_track_line l"
    and rest: "track_blocks blocks"
    by (simp_all add: track_blocks_Cons)
  have "parse_cue_lines (pre @ join_blocks (b # blocks)) =
        parse_cue_lines (pre @ t # (body @ join_blocks blocks))"
    by (simp add: b join_blocks_def)
  also have "\<dots> = parse_cue_lines pre @ parse_cue_lines (body @ join_blocks blocks)"
    by (rule parse_at_track [OF t])
  also have "parse_cue_lines (body @ join_blocks blocks) =
        parse_cue_lines body @ concat (map (\<lambda>(t, body). seeds_of body) blocks)"
    by (rule Cons.IH [OF rest])
  finally show ?case
    by (simp add: b parse_body [OF body])
qed

lemma latest_None_iff: "latest init xs = None \<longleftrightarrow> init = None \<and> (\<forall>x \<in> set xs. x = None)"
  unfolding latest_def
  by (induction xs arbitrary: init) (auto split: option.splits)

lemma seeds_of_untimed:
  assumes "\<forall>l \<in> set body. time_of_line l = None"
  shows "seeds_of body = []"
proof -
  have "latest None (map time_of_line body) = None"
    using assms by (simp add: latest_None_iff)
  then show ?thesis by (simp add: seeds_of_def block_seed_def split: option.splits)
qed

lemma seeds_of_untitled:
  assumes "\<forall>l \<in> set body. title_of_line l = None"
  shows "seeds_of body = []"
proof -
  have "latest None (map title_of_line body) = None"
    using assms by (simp add: latest_None_iff)
  then show ?thesis by (simp add: seeds_of_def block_seed_def split: option.splits)
qed

lemma seeds_of_complete:
  assumes "\<exists>l \<in> set body. title_of_line l \<noteq> None" and "\<exists>l \<in> set body. time_of_line l \<noteq> None"
  shows "map Some (seeds_of body) = [block_seed body]"
proof -
  have "latest None (map title_of_line body) \<noteq> None"
    using assms(1) by (simp add: latest_None_iff)
  moreover have "latest None (map time_of_line body) \<noteq> None"
    using assms(2) by (simp add: latest_None_iff)
  ultimately show ?thesis
    by (auto simp: seeds_of_def block_seed_def split: option.splits)
qed

text \<open>
  C10: the parser can produce a seed that belongs to no TRACK block. The text
  \<open>cue_without_track\<close> has a TITLE line with a quoted title and an INDEX 01 line and no
  TRACK line, and the parser returns one seed for it, flushed at the end of the input;
  with a TRACK line after the pair, the pair is flushed at that line.
\<close>

theorem seed_outside_any_track_block:
  "filter is_track_line (text_lines cue_without_track) = []
   \<and> list_ex quoted_title_line (text_lines cue_without_track)
   \<and> list_ex well_formed_index_line (text_lines cue_without_track)
   \<and> parse_cue_file cue_without_track = [(''Intro'', 0)]
   \<and> parse_cue_file (cue_without_track @ ''TRACK 01 AUDIO\<newline>'') = [(''Intro'', 0)]"
  by code_simp

text \<open>
  C4, as stated, fails: \<open>cue_pair_before_track\<close> has one TRACK block, with a quoted
  title and a well-formed INDEX 01 line, and the parser returns two seeds, the first
  from the title and the INDEX 01 line that stand before the TRACK line.
\<close>

theorem one_block_two_seeds:
  "filter is_track_line (text_lines cue_pair_before_track) = [''TRACK 01 AUDIO\<newline>'']
   \<and> text_lines cue_pair_before_track =
       take 2 (text_lines cue_pair_before_track) @
       join_blocks [(''TRACK 01 AUDIO\<newline>'', drop 3 (text_lines cue_pair_before_track))]
   \<and> list_ex quoted_title_line (drop 3 (text_lines cue_pair_before_track))
   \<and> list_ex well_formed_index_line (drop 3 (text_lines cue_pair_before_track))
   \<and> parse_cue_file cue_pair_before_track = [(''Album'', 0), (''Main'', 180000)]"
  by code_simp

text \<open>
  C4, amended: for every CUE text whose lines are a header without TRACK line followed
  by N TRACK blocks, where each block has a TITLE line with a quoted title and a
  well-formed INDEX 01 line, and where the header does not have both a TITLE line that
  sets a title and an INDEX 01 line that sets a time, the parser returns exactly N
  seeds, and the i-th seed is the one of the i-th block (its last title and its last
  time).
\<close>

theorem one_seed_per_track_block:
  assumes "text_lines txt = header @ join_blocks blocks"
    and "track_blocks blocks"
    and "list_all (\<lambda>(t, body). list_ex quoted_title_line body) blocks"
    and "list_all (\<lambda>(t, body). list_ex well_formed_index_line body) blocks"
    and "list_all (\<lambda>l. \<not> is_track_line l) header"
    and "list_all (\<lambda>l. title_of_line l = None) header
         \<or> list_all (\<lambda>l. time_of_line l = None) header"
  shows "length (parse_cue_file txt) = length blocks
         \<and> map Some (parse_cue_file txt) = map (\<lambda>(t, body). block_seed body) blocks"
proof -
  have header: "parse_cue_lines header = []"
  proof -
    have "parse_cue_lines header = seeds_of header"
      using assms(5) by (simp add: parse_body list_all_iff)
    also have "\<dots> = []"
      using assms(6) seeds_of_untimed seeds_of_untitled by (auto simp: list_all_iff)
    finally show ?thesis .
  qed
  have each: "map Some (seeds_of body) = [block_seed body]" if "(t, body) \<in> set blocks" for t body
  proof (rule seeds_of_complete)
    show "\<exists>l \<in> set body. title_of_line l \<noteq> None"
      using assms(3) that quoted_title_line_title by (fastforce simp: list_all_iff list_ex_iff)
    show "\<exists>l \<in> set body. time_of_line l \<noteq> None"
      using assms(4) that well_formed_index_line_time by (fastforce simp: list_all_iff list_ex_iff)
  qed
  have "map Some (concat (map (\<lambda>(t, body). seeds_of body) bs)) =
        map (\<lambda>(t, body). block_seed body) bs" if "set bs \<subseteq> set blocks" for bs
    using that
  proof (induction bs)
    case Nil
    show ?case by simp
  next
    case (Cons b bs)
    obtain t body where b: "b = (t, body)" by (cases b)
    with Cons.prems have "(t, body) \<in> set blocks" by simp
    from each [OF this] Cons show ?case by (simp add: b)
  qed
  then have seeds: "map Some (concat (map (\<lambda>(t, body). seeds_of body) blocks)) =
        map (\<lambda>(t, body). block_seed body) blocks"
    by simp
  have "parse_cue_file txt = concat (map (\<lambda>(t, body). seeds_of body) blocks)"
    by (simp add: parse_cue_file_def assms(1) parse_blocks [OF assms(2)] header)
  with seeds have m: "map Some (parse_cue_file txt) = map (\<lambda>(t, body). block_seed body) blocks"
    by simp
  from arg_cong [OF m, of length] have "length (parse_cue_file txt) = length blocks"
    by simp
  with m show ?thesis by simp
qed

text \<open>The two-track example: a FILE line, then Intro at 00:00:00 and Main at 03:00:00.\<close>

theorem one_seed_per_track_block_witness:
  "length (parse_cue_file (concat (two_track_header @ join_blocks two_track_blocks))) = 2
   \<and> parse_cue_file (concat (two_track_header @ join_blocks two_track_blocks)) =
       [(''Intro'', 0), (''Main'', 180000)]"
proof -
  have 1: "text_lines (concat (two_track_header @ join_blocks two_track_blocks)) =
           two_track_header @ join_blocks two_track_blocks"
    by code_simp
  have 2: "track_blocks two_track_blocks" by code_simp
  have 3: "list_all (\<lambda>(t, body). list_ex quoted_title_line body) two_track_blocks"
    by code_simp
  have 4: "list_all (\<lambda>(t, body). list_ex well_formed_index_line body) two_track_blocks"
    by code_simp
  have 5: "list_all (\<lambda>l. \<not> is_track_line l) two_track_header" by code_simp
  have 6: "list_all (\<lambda>l. title_of_line l = None) two_track_header
         \<or> list_all (\<lambda>l. time_of_line l = None) two_track_header" by code_simp
  have 7: "map (\<lambda>(t, body). block_seed body) two_track_blocks =
           [Some (''Intro'', 0), Some (''Main'', 180000)]"
    by code_simp
  from one_seed_per_track_block [OF 1 2 3 4 5 6]
  have "length (parse_cue_file (concat (two_track_header @ join_blocks two_track_blocks))) =
          length two_track_blocks"
    and "map Some (parse_cue_file (concat (two_track_header @ join_blocks two_track_blocks))) =
          [Some (''Intro'', 0), Some (''Main'', 180000)]"
    by (simp_all add: 7)
  moreover have "length two_track_blocks = 2" by (simp add: two_track_blocks_def)
  ultimately show ?thesis by (auto simp: map_eq_Cons_conv)
qed

lemma parse_cue_lines_Nil [simp]: "parse_cue_lines [] = []"
  by (simp add: parse_cue_lines_def)




section \<open>Properties of the tag container\<close>

lemma delete_as_filter: "AList.delete k al = filter (\<lambda>(k', v). k' \<noteq> k) al"
  by (induction al) auto

lemma remove_loop:
  "foldl (\<lambda>acc key. if P key then AList.delete key acc else acc) acc ks =
     filter (\<lambda>(k, v). \<not> (P k \<and> k \<in> set ks)) acc"
proof (induction ks arbitrary: acc)
  case Nil
  show ?case by simp
next
  case (Cons k ks)
  show ?case
    by (auto simp: Cons.IH delete_as_filter intro!: filter_cong)
qed

lemma remove_chapter_frames_eq: "remove_chapter_frames tg = other_frames tg"
  unfolding remove_chapter_frames_def other_frames_def is_chapter_key_def
  by (subst remove_loop [where P = "\<lambda>key. startswith key ''CHAP'' \<or> startswith key ''CTOC''"])
     (force intro!: filter_cong)

lemma update_fresh: "k \<notin> fst ` set al \<Longrightarrow> AList.update k v al = al @ [(k, v)]"
  by (induction al) auto

lemma digit_val_digit_char: "d < 10 \<Longrightarrow> digit_val (digit_char d) = int d"
proof -
  have "\<forall>d<10. digit_val (digit_char d) = int d"
    by (simp add: eval_nat_numeral All_less_Suc digit_val_def digit_char_def)
  then show "d < 10 \<Longrightarrow> digit_val (digit_char d) = int d" by simp
qed

lemma int_of_digits_snoc: "int_of_digits (ds @ [c]) = 10 * int_of_digits ds + digit_val c"
  by (simp add: int_of_digits_def)

lemma int_of_digits_dec: "int_of_digits (dec n) = int n"
proof (induction n rule: dec.induct)
  case (1 n)
  show ?case
  proof (cases "n < 10")
    case True
    then show ?thesis
      by (subst dec.simps) (simp add: int_of_digits_def digit_val_digit_char)
  next
    case False
    then have "int_of_digits (dec (n div 10)) = int (n div 10)" by (rule "1.IH")
    with False show ?thesis
      by (subst dec.simps) (simp add: int_of_digits_snoc digit_val_digit_char zdiv_int zmod_int)
  qed
qed

lemma int_of_digits_zeros: "int_of_digits (replicate k CHR ''0'' @ ds) = int_of_digits ds"
proof (induction k)
  case 0
  show ?case by simp
next
  case (Suc k)
  have "digit_val CHR ''0'' = 0" by (simp add: digit_val_def)
  have "foldl (\<lambda>acc c. 10 * acc + digit_val c) 0 (CHR ''0'' # xs) =
        foldl (\<lambda>acc c. 10 * acc + digit_val c) 0 xs" for xs
    by (simp add: digit_val_def)
  then have "int_of_digits (CHR ''0'' # xs) = int_of_digits xs" for xs
    by (simp add: int_of_digits_def)
  with Suc show ?case by simp
qed

lemma int_of_digits_fmt: "int_of_digits (fmt_02d n) = int n"
  unfolding fmt_02d_def Let_def
  by (simp only: int_of_digits_zeros int_of_digits_dec)

lemma fmt_02d_inj:
  assumes "fmt_02d m = fmt_02d n"
  shows "m = n"
proof -
  from assms have "int_of_digits (fmt_02d m) = int_of_digits (fmt_02d n)"
    by (rule arg_cong)
  then have "int m = int n" by (simp only: int_of_digits_fmt)
  then show ?thesis by simp
qed

lemma chapter_id_inj: "chapter_id i = chapter_id j \<Longrightarrow> i = j"
  by (auto simp: chapter_id_def dest: fmt_02d_inj)


lemma startswith_append [simp]: "startswith (p @ s) p"
  by (simp add: startswith_def)

lemma chap_key_not_ctoc [simp]: "\<not> startswith (''CHAP:'' @ s) ''CTOC''"
  by (simp add: startswith_def)

lemma chap_key_is_chap [simp]: "startswith (''CHAP:'' @ s) ''CHAP''"
  by (simp add: startswith_def)

lemma ctoc_key_is_ctoc [simp]: "startswith (''CTOC:'' @ s) ''CTOC''"
  by (simp add: startswith_def)

lemma ctoc_key_not_chap [simp]: "\<not> startswith (''CTOC:'' @ s) ''CHAP''"
  by (simp add: startswith_def)

lemma hash_key_chap_frame [simp]:
  "hash_key (chap_frame chs total_ms idx ch) = ''CHAP:'' @ chapter_id idx"
  by (simp add: chap_frame_def Let_def split: prod.splits)

text \<open>Adding chapter frames with fresh ids appends them in order.\<close>

lemma add_chapters_loop:
  assumes "\<And>key fr idx. (key, fr) \<in> set acc \<Longrightarrow> n \<le> idx \<Longrightarrow> key \<noteq> ''CHAP:'' @ chapter_id idx"
  shows "foldl (\<lambda>acc (idx, ch). add (chap_frame chs total_ms idx ch) acc) acc (enumerate n xs) =
         acc @ map (\<lambda>(idx, ch). (''CHAP:'' @ chapter_id idx, chap_frame chs total_ms idx ch))
                 (enumerate n xs)"
  using assms
proof (induction xs arbitrary: acc n)
  case Nil
  show ?case by simp
next
  case (Cons x xs)
  let ?k = "''CHAP:'' @ chapter_id n"
  let ?acc = "acc @ [(?k, chap_frame chs total_ms n x)]"
  have fresh: "?k \<notin> fst ` set acc"
  proof
    assume "?k \<in> fst ` set acc"
    then obtain fr where "(?k, fr) \<in> set acc" by auto
    from Cons.prems [OF this, of n] show False by simp
  qed
  have step: "add (chap_frame chs total_ms n x) acc = ?acc"
    by (simp only: add_def hash_key_chap_frame update_fresh [OF fresh])
  have later: "key \<noteq> ''CHAP:'' @ chapter_id idx" if "(key, fr) \<in> set ?acc" and "Suc n \<le> idx"
    for key fr idx
  proof (cases "(key, fr) \<in> set acc")
    case True
    from Cons.prems [OF True, of idx] that show ?thesis by simp
  next
    case False
    with that have "key = ?k" by simp
    moreover have "chapter_id n \<noteq> chapter_id idx"
      using that(2) chapter_id_inj [of n idx] by auto
    ultimately show ?thesis by simp
  qed
  from Cons.IH [of ?acc "Suc n", OF later] show ?case
    by (simp add: step)
qed

lemma other_frames_keys: "(key, fr) \<in> set (other_frames tg) \<Longrightarrow> \<not> is_chapter_key key"
  by (auto simp: other_frames_def)

text \<open>The container after lines 80 to 118, written out.\<close>

lemma build_tags_eq:
  "build_tags tg chs total_ms =
     other_frames tg @ [(''CTOC:toc'', ctoc_frame chs)] @ new_chapter_entries chs total_ms"
proof -
  have fresh: "''CTOC:toc'' \<notin> fst ` set (other_frames tg)"
  proof
    assume "''CTOC:toc'' \<in> fst ` set (other_frames tg)"
    then obtain fr where "(''CTOC:toc'', fr) \<in> set (other_frames tg)" by auto
    from other_frames_keys [OF this] show False
      by (simp add: is_chapter_key_def startswith_def)
  qed
  have toc: "add (ctoc_frame chs) (other_frames tg) = other_frames tg @ [(''CTOC:toc'', ctoc_frame chs)]"
    by (simp add: add_def ctoc_frame_def update_fresh [OF fresh])
  have "key \<noteq> ''CHAP:'' @ chapter_id idx"
    if "(key, fr) \<in> set (other_frames tg @ [(''CTOC:toc'', ctoc_frame chs)])" for key fr idx
  proof (cases "(key, fr) \<in> set (other_frames tg)")
    case True
    from other_frames_keys [OF True] have "\<not> startswith key ''CHAP''"
      by (simp add: is_chapter_key_def)
    then show ?thesis by (auto simp: startswith_def)
  next
    case False
    with that have "key = ''CTOC:toc''" by simp
    then show ?thesis by simp
  qed
  from add_chapters_loop [of "other_frames tg @ [(''CTOC:toc'', ctoc_frame chs)]" 0, OF this]
  show ?thesis
    by (simp add: build_tags_def remove_chapter_frames_eq toc new_chapter_entries_def)
qed


lemma filter_new_chapter_entries:
  "filter (\<lambda>(key, fr). startswith key ''CHAP'') (new_chapter_entries chs total_ms) =
     new_chapter_entries chs total_ms"
  "filter (\<lambda>(key, fr). startswith key ''CTOC'') (new_chapter_entries chs total_ms) = []"
  "filter (\<lambda>(key, fr). \<not> is_chapter_key key) (new_chapter_entries chs total_ms) = []"
  by (auto simp: new_chapter_entries_def filter_empty_conv is_chapter_key_def startswith_def
      intro!: filter_True)

lemma filter_other_frames:
  "filter (\<lambda>(key, fr). startswith key ''CHAP'') (other_frames tg) = []"
  "filter (\<lambda>(key, fr). startswith key ''CTOC'') (other_frames tg) = []"
  "filter (\<lambda>(key, fr). \<not> is_chapter_key key) (other_frames tg) = other_frames tg"
  by (auto simp: other_frames_def filter_empty_conv is_chapter_key_def)

lemma toc_key_tests [simp]:
  "startswith ''CTOC:toc'' ''CTOC''" "\<not> startswith ''CTOC:toc'' ''CHAP''"
  "is_chapter_key ''CTOC:toc''"
  by (simp_all add: startswith_def is_chapter_key_def)

lemma chapter_frames_build:
  "chapter_frames (build_tags tg chs total_ms) =
     map (\<lambda>(idx, ch). chap_frame chs total_ms idx ch) (enumerate 0 chs)"
proof -
  have "chapter_frames (build_tags tg chs total_ms) = map snd (new_chapter_entries chs total_ms)"
    by (simp add: chapter_frames_def build_tags_eq filter_new_chapter_entries filter_other_frames)
  also have "\<dots> = map (\<lambda>(idx, ch). chap_frame chs total_ms idx ch) (enumerate 0 chs)"
    by (simp add: new_chapter_entries_def split_def)
  finally show ?thesis .
qed

lemma toc_frames_build: "toc_frames (build_tags tg chs total_ms) = [ctoc_frame chs]"
  by (simp add: toc_frames_def build_tags_eq filter_new_chapter_entries filter_other_frames)

lemma other_frames_build: "other_frames (build_tags tg chs total_ms) = other_frames tg"
proof -
  have "other_frames (build_tags tg chs total_ms) =
        filter (\<lambda>(key, fr). \<not> is_chapter_key key) (other_frames tg) @
        filter (\<lambda>(key, fr). \<not> is_chapter_key key) [(''CTOC:toc'', ctoc_frame chs)] @
        filter (\<lambda>(key, fr). \<not> is_chapter_key key) (new_chapter_entries chs total_ms)"
    unfolding build_tags_eq other_frames_def [of "_ @ _"] by simp
  then show ?thesis
    by (simp add: filter_new_chapter_entries filter_other_frames)
qed

lemma length_chapter_frames: "length (chapter_frames (build_tags tg chs total_ms)) = length chs"
  by (simp add: chapter_frames_build)

lemma nth_chapter_frames:
  assumes "i < length chs"
  shows "chapter_frames (build_tags tg chs total_ms) ! i = chap_frame chs total_ms i (chs ! i)"
  using assms by (simp add: chapter_frames_build nth_enumerate_eq)

lemma chap_frame_times:
  "start_time (chap_frame chs total_ms i ch) = snd ch"
  "end_time (chap_frame chs total_ms i ch) =
     (if Suc i < length chs then snd (chs ! Suc i) else total_ms)"
  by (auto simp: chap_frame_def Let_def split: prod.splits)

lemma child_ids_eq: "child_ids chs = map chapter_id [0..<length chs]"
  by (simp add: child_ids_def enumerate_eq_zip split_def map_fst_zip_take
      flip: map_map [of chapter_id fst, unfolded comp_def])

text \<open>
  C3: for every seed sequence and every total duration, the chapter frames that
  \<^verbatim>\<open>embed_chapters\<close> puts into the container are as many as the seeds, chapter i
  ends where chapter i+1 starts, and the last chapter ends at the total duration; each
  chapter starts at its seed's time. For seeds in ascending order and a total duration
  not before the last start, no chapter ends before it starts.
\<close>

theorem chapters_contiguous:
  "length (chapter_frames (build_tags tg chs total_ms)) = length chs
   \<and> (\<forall>i. Suc i < length chs \<longrightarrow>
         end_time (chapter_frames (build_tags tg chs total_ms) ! i) =
         start_time (chapter_frames (build_tags tg chs total_ms) ! Suc i))
   \<and> (chs \<noteq> [] \<longrightarrow> end_time (last (chapter_frames (build_tags tg chs total_ms))) = total_ms)
   \<and> (\<forall>i < length chs. start_time (chapter_frames (build_tags tg chs total_ms) ! i) = snd (chs ! i))
   \<and> (sorted (map snd chs) \<and> (chs \<noteq> [] \<longrightarrow> snd (last chs) \<le> total_ms) \<longrightarrow>
        (\<forall>i < length chs. start_time (chapter_frames (build_tags tg chs total_ms) ! i)
                            \<le> end_time (chapter_frames (build_tags tg chs total_ms) ! i)))"
proof -
  let ?cf = "chapter_frames (build_tags tg chs total_ms)"
  have len: "length ?cf = length chs" by (rule length_chapter_frames)
  have st: "start_time (?cf ! i) = snd (chs ! i)" if "i < length chs" for i
    using that by (simp add: nth_chapter_frames chap_frame_times)
  have en: "end_time (?cf ! i) = (if Suc i < length chs then snd (chs ! Suc i) else total_ms)"
    if "i < length chs" for i
    using that by (simp add: nth_chapter_frames chap_frame_times)
  have contiguous: "end_time (?cf ! i) = start_time (?cf ! Suc i)" if "Suc i < length chs" for i
    using that st [of "Suc i"] en [of i] by simp
  have final: "end_time (last ?cf) = total_ms" if "chs \<noteq> []"
  proof -
    from that len have "?cf \<noteq> []" by auto
    then have "last ?cf = ?cf ! (length chs - 1)" by (simp add: last_conv_nth len)
    with that en [of "length chs - 1"] show ?thesis by simp
  qed
  have ordered: "start_time (?cf ! i) \<le> end_time (?cf ! i)"
    if "sorted (map snd chs)" and "chs \<noteq> [] \<longrightarrow> snd (last chs) \<le> total_ms" and "i < length chs" for i
  proof (cases "Suc i < length chs")
    case True
    from that(1) True have "map snd chs ! i \<le> map snd chs ! Suc i"
      by (intro sorted_nth_mono) simp_all
    with True that(3) st [of i] en [of i] show ?thesis by simp
  next
    case False
    with that(3) have i: "i = length chs - 1" and ne: "chs \<noteq> []" by auto
    then have "chs ! i = last chs" by (simp add: last_conv_nth)
    with that(2) ne st [OF that(3)] en [OF that(3)] False show ?thesis by simp
  qed
  from len st contiguous final ordered show ?thesis by blast
qed

text \<open>Intro and Main in a file of 300000 ms.\<close>

theorem chapters_contiguous_witness:
  "end_time (chapter_frames (build_tags old_tags intro_main 300000) ! 0) =
     start_time (chapter_frames (build_tags old_tags intro_main 300000) ! Suc 0)
   \<and> end_time (last (chapter_frames (build_tags old_tags intro_main 300000))) = 300000
   \<and> start_time (chapter_frames (build_tags old_tags intro_main 300000) ! 0)
        \<le> end_time (chapter_frames (build_tags old_tags intro_main 300000) ! 0)
   \<and> chapter_frames (build_tags old_tags intro_main 300000) =
       [CHAP ''chp01'' 0 180000 0 0 [TIT2 3 [''Intro'']],
        CHAP ''chp02'' 180000 300000 0 0 [TIT2 3 [''Main'']]]"
proof -
  have 1: "Suc 0 < length intro_main" "intro_main \<noteq> []" "0 < length intro_main"
    by (simp_all add: intro_main_def)
  have 2: "sorted (map snd intro_main) \<and> (intro_main \<noteq> [] \<longrightarrow> snd (last intro_main) \<le> 300000)"
    by (simp add: intro_main_def)
  have 3: "chapter_frames (build_tags old_tags intro_main 300000) =
       [CHAP ''chp01'' 0 180000 0 0 [TIT2 3 [''Intro'']],
        CHAP ''chp02'' 180000 300000 0 0 [TIT2 3 [''Main'']]]"
    by code_simp
  from chapters_contiguous [of old_tags intro_main 300000] 1 2
  have "end_time (chapter_frames (build_tags old_tags intro_main 300000) ! 0) =
     start_time (chapter_frames (build_tags old_tags intro_main 300000) ! Suc 0)"
    and "end_time (last (chapter_frames (build_tags old_tags intro_main 300000))) = 300000"
    and "start_time (chapter_frames (build_tags old_tags intro_main 300000) ! 0)
        \<le> end_time (chapter_frames (build_tags old_tags intro_main 300000) ! 0)"
    by blast+
  with 3 show ?thesis by blast
qed

lemma chapter_entries_keys:
  "map fst (new_chapter_entries chs total_ms) = map (\<lambda>i. ''CHAP:'' @ chapter_id i) [0..<length chs]"
  by (rule nth_equalityI) (simp_all add: new_chapter_entries_def nth_enumerate_eq)

lemma filter_chapter_keys_build:
  "filter (\<lambda>(key, fr). is_chapter_key key) (build_tags tg chs total_ms) =
     (''CTOC:toc'', ctoc_frame chs) # new_chapter_entries chs total_ms"
proof -
  have "filter (\<lambda>(key, fr). is_chapter_key key) (other_frames tg) = []"
    by (auto simp: other_frames_def filter_empty_conv)
  moreover have "filter (\<lambda>(key, fr). is_chapter_key key) (new_chapter_entries chs total_ms) =
      new_chapter_entries chs total_ms"
    by (auto simp: new_chapter_entries_def is_chapter_key_def startswith_def intro!: filter_True)
  ultimately show ?thesis by (simp add: build_tags_eq)
qed

text \<open>
  C5: on any container, also one that already holds chapter and table-of-contents
  frames, no entry whose key starts with CHAP or CTOC survives the removal loop; after
  the new frames are added the container holds exactly one table-of-contents frame and
  as many chapter frames as there are chapters, under distinct keys; the other entries
  are untouched; and building again on the result gives the same container as building
  once.
\<close>

theorem rerun_replaces_chapter_frames:
  "filter (\<lambda>(key, fr). is_chapter_key key) (remove_chapter_frames tg) = []
   \<and> length (toc_frames (build_tags tg chs total_ms)) = 1
   \<and> length (chapter_frames (build_tags tg chs total_ms)) = length chs
   \<and> distinct (map fst (filter (\<lambda>(key, fr). is_chapter_key key) (build_tags tg chs total_ms)))
   \<and> other_frames (build_tags tg chs total_ms) = other_frames tg
   \<and> build_tags (build_tags tg old_chs old_total_ms) chs total_ms = build_tags tg chs total_ms"
proof -
  have removed: "filter (\<lambda>(key, fr). is_chapter_key key) (remove_chapter_frames tg) = []"
    by (auto simp: remove_chapter_frames_eq other_frames_def filter_empty_conv)
  have inj: "inj_on (\<lambda>i. ''CHAP:'' @ chapter_id i) A" for A
    by (rule inj_onI) (auto dest: chapter_id_inj)
  have "''CTOC:toc'' \<notin> (\<lambda>i. ''CHAP:'' @ chapter_id i) ` B" for B
    by auto
  then have keys: "distinct (map fst (filter (\<lambda>(key, fr). is_chapter_key key)
      (build_tags tg chs total_ms)))"
    by (simp add: filter_chapter_keys_build chapter_entries_keys distinct_map inj del: append.simps)
  have again: "build_tags (build_tags tg old_chs old_total_ms) chs total_ms = build_tags tg chs total_ms"
    by (simp only: build_tags_eq [of "build_tags tg old_chs old_total_ms"] other_frames_build
        build_tags_eq [of tg chs total_ms])
  from removed keys again show ?thesis
    by (simp add: toc_frames_build length_chapter_frames other_frames_build)
qed

lemma dec_nonempty: "dec n \<noteq> []"
  by (subst dec.simps) simp

lemma dec_small: "n < 10 \<Longrightarrow> dec n = [digit_char n]"
  by (subst dec.simps) simp

lemma dec_two: "10 \<le> n \<Longrightarrow> n < 100 \<Longrightarrow> dec n = [digit_char (n div 10), digit_char (n mod 10)]"
  by (subst dec.simps) (simp add: dec_small)

lemma dec_long: "100 \<le> n \<Longrightarrow> 3 \<le> length (dec n)"
proof -
  assume n: "100 \<le> n"
  have "1 \<le> length (dec m)" for m
    using dec_nonempty [of m] by (cases "dec m") simp_all
  then have "2 \<le> length (dec m)" if "10 \<le> m" for m
    using that by (subst dec.simps) (simp add: Suc_le_eq)
  from this [of "n div 10"] n show ?thesis
    by (subst dec.simps) simp
qed

lemma fmt_02d_cases:
  "n < 10 \<Longrightarrow> fmt_02d n = [CHR ''0'', digit_char n]"
  "10 \<le> n \<Longrightarrow> n < 100 \<Longrightarrow> fmt_02d n = [digit_char (n div 10), digit_char (n mod 10)]"
  "100 \<le> n \<Longrightarrow> fmt_02d n = dec n"
  using dec_long [of n]
  by (simp_all add: fmt_02d_def Let_def dec_small dec_two)

text \<open>
  C8: the single table-of-contents frame has the element id toc, the flags top-level
  and ordered, and as child ids the ids of all chapters in order; the chapter frame of
  chapter i carries the id of chapter i, its seed's start and its title (as the text
  values between the NUL characters of the title); the id is chp
  followed by the decimal digits of i+1, which are two digits with a leading zero below
  10, two digits below 100, and three or more digits from 100 on.
\<close>

theorem chapter_ids_and_table_of_contents:
  "toc_frames (build_tags tg chs total_ms) =
     [CTOC ''toc'' (TOP_LEVEL OR ORDERED) (map chapter_id [0..<length chs]) [TIT2 3 [''I'm a TOC'']]]
   \<and> (TOP_LEVEL OR ORDERED) AND TOP_LEVEL = TOP_LEVEL
   \<and> (TOP_LEVEL OR ORDERED) AND ORDERED = ORDERED
   \<and> map element_id (chapter_frames (build_tags tg chs total_ms)) = map chapter_id [0..<length chs]
   \<and> (\<forall>i < length chs. \<exists>e. chapter_frames (build_tags tg chs total_ms) ! i =
          CHAP (chapter_id i) (snd (chs ! i)) e 0 0 [TIT2 3 (split_on (CHR 0x00) (fst (chs ! i)))])
   \<and> (\<forall>i. chapter_id i = ''chp'' @ fmt_02d (i + 1) \<and> int_of_digits (fmt_02d (i + 1)) = int i + 1)
   \<and> (\<forall>i. i + 1 < 10 \<longrightarrow> chapter_id i = ''chp0'' @ [digit_char (i + 1)])
   \<and> (\<forall>i. 10 \<le> i + 1 \<and> i + 1 < 100 \<longrightarrow>
          chapter_id i = ''chp'' @ [digit_char ((i + 1) div 10), digit_char ((i + 1) mod 10)])
   \<and> (\<forall>i. 100 \<le> i + 1 \<longrightarrow> chapter_id i = ''chp'' @ dec (i + 1) \<and> 3 \<le> length (dec (i + 1)))"
proof -
  let ?cf = "chapter_frames (build_tags tg chs total_ms)"
  have toc: "toc_frames (build_tags tg chs total_ms) =
     [CTOC ''toc'' (TOP_LEVEL OR ORDERED) (map chapter_id [0..<length chs]) [TIT2 3 [''I'm a TOC'']]]"
    by (simp add: toc_frames_build ctoc_frame_def child_ids_eq)
  have flags: "(TOP_LEVEL OR ORDERED) AND TOP_LEVEL = TOP_LEVEL"
    "(TOP_LEVEL OR ORDERED) AND ORDERED = ORDERED"
    by (simp_all add: TOP_LEVEL_def ORDERED_def)
  have nth: "?cf ! i = CHAP (chapter_id i) (snd (chs ! i))
      (if int i < int (length chs) - 1 then snd (chs ! (i + 1)) else total_ms) 0 0
      [TIT2 3 (split_on (CHR 0x00) (fst (chs ! i)))]" if "i < length chs" for i
    using that by (simp add: nth_chapter_frames chap_frame_def Let_def split_def)
  have ids: "map element_id ?cf = map chapter_id [0..<length chs]"
    by (rule nth_equalityI) (simp_all add: length_chapter_frames nth)
  have each: "\<exists>e. ?cf ! i =
      CHAP (chapter_id i) (snd (chs ! i)) e 0 0 [TIT2 3 (split_on (CHR 0x00) (fst (chs ! i)))]"
    if "i < length chs" for i
    using nth [OF that] by blast
  have fmt: "chapter_id i = ''chp'' @ fmt_02d (i + 1) \<and> int_of_digits (fmt_02d (i + 1)) = int i + 1"
    for i
    by (simp add: chapter_id_def int_of_digits_fmt)
  have one: "chapter_id i = ''chp0'' @ [digit_char (i + 1)]" if "i + 1 < 10" for i
    using that by (simp add: chapter_id_def fmt_02d_cases)
  have two: "chapter_id i = ''chp'' @ [digit_char ((i + 1) div 10), digit_char ((i + 1) mod 10)]"
    if "10 \<le> i + 1 \<and> i + 1 < 100" for i
    using that by (simp add: chapter_id_def fmt_02d_cases)
  have more: "chapter_id i = ''chp'' @ dec (i + 1) \<and> 3 \<le> length (dec (i + 1))" if "100 \<le> i + 1" for i
    using that dec_long [of "i + 1"] by (simp add: chapter_id_def fmt_02d_cases)
  from toc flags ids each fmt one two more show ?thesis by blast
qed

text \<open>
  The container of the two-chapter example, the ids of chapters 1, 12 and 100, and a
  title with a NUL character, which gives two text values.
\<close>

theorem chapter_ids_and_table_of_contents_witness:
  "toc_frames (build_tags old_tags intro_main 300000) =
     [CTOC ''toc'' 3 [''chp01'', ''chp02''] [TIT2 3 [''I'm a TOC'']]]
   \<and> map element_id (chapter_frames (build_tags old_tags intro_main 300000)) = [''chp01'', ''chp02'']
   \<and> chapter_id 0 = ''chp01'' \<and> chapter_id 11 = ''chp12'' \<and> chapter_id 99 = ''chp100''
   \<and> chapter_frames (build_tags [] [(''a'' @ [CHR 0x00] @ ''b'', 0)] 1000) =
       [CHAP ''chp01'' 0 1000 0 0 [TIT2 3 [''a'', ''b'']]]"
proof -
  have nul: "chapter_frames (build_tags [] [(''a'' @ [CHR 0x00] @ ''b'', 0)] 1000) =
       [CHAP ''chp01'' 0 1000 0 0 [TIT2 3 [''a'', ''b'']]]"
    by code_simp
  have len: "[0..<length intro_main] = [0, 1]" by (simp add: intro_main_def upt_rec)
  have flags: "TOP_LEVEL OR ORDERED = 3" by (simp add: TOP_LEVEL_def ORDERED_def)
  have d: "digit_char 1 = CHR ''1''" "digit_char 2 = CHR ''2''" "dec 100 = ''100''"
    by code_simp+
  from chapter_ids_and_table_of_contents [of old_tags intro_main 300000]
  have toc: "toc_frames (build_tags old_tags intro_main 300000) =
     [CTOC ''toc'' (TOP_LEVEL OR ORDERED) (map chapter_id [0..<length intro_main]) [TIT2 3 [''I'm a TOC'']]]"
    and ids: "map element_id (chapter_frames (build_tags old_tags intro_main 300000)) =
       map chapter_id [0..<length intro_main]"
    and one: "\<forall>i. i + 1 < 10 \<longrightarrow> chapter_id i = ''chp0'' @ [digit_char (i + 1)]"
    and two: "\<forall>i. 10 \<le> i + 1 \<and> i + 1 < 100 \<longrightarrow>
          chapter_id i = ''chp'' @ [digit_char ((i + 1) div 10), digit_char ((i + 1) mod 10)]"
    and more: "\<forall>i. 100 \<le> i + 1 \<longrightarrow> chapter_id i = ''chp'' @ dec (i + 1) \<and> 3 \<le> length (dec (i + 1))"
    by blast+
  from one [rule_format, of 0] one [rule_format, of 1] two [rule_format, of 11]
    more [rule_format, of 99]
  have c: "chapter_id 0 = ''chp01''" "chapter_id 1 = ''chp02''" "chapter_id 11 = ''chp12''"
    "chapter_id 99 = ''chp100''"
    by (simp_all add: d digit_char_def)
  from toc ids c nul show ?thesis by (simp add: len flags)
qed

section \<open>Properties of the writer and of the run for one file\<close>

lemma files_print [simp]: "files (print e w) = files w"
  by (simp add: print_def)

lemma printed_print [simp]: "printed (print e w) = printed w @ [e]"
  by (simp add: print_def)

lemma files_write_file [simp]: "files (write_file p c w) = (files w)(p \<mapsto> c)"
  by (simp add: write_file_def)

lemma printed_write_file [simp]: "printed (write_file p c w) = printed w"
  by (simp add: write_file_def)

lemma files_delete_file [simp]: "files (delete_file p w) = (files w)(p := None)"
  by (simp add: delete_file_def)

lemma printed_delete_file [simp]: "printed (delete_file p w) = printed w"
  by (simp add: delete_file_def)

lemma bak_neq [simp]: "mp3_path @ ''.bak'' \<noteq> mp3_path" "mp3_path \<noteq> mp3_path @ ''.bak''"
  by (auto dest: arg_cong [where f = length])





lemma files_framed [simp]: "files (framed chs w) = files w"
  by (simp add: framed_def)

lemma embed_chapters_save_error:
  assumes "files w mp3_path = Some original"
    and "open_tags en original = Inr tg"
    and "total_duration en original = Inr total_ms"
    and "id3_save en (build_tags tg chs total_ms) original = Save_error left"
  shows "embed_chapters en mp3_path chs w =
           (Inl Save_failed,
            restore_backup en mp3_path
              (print Error_saving_tags
                 (write_file mp3_path left (create_backup en mp3_path original (framed chs w)))))"
  using assms by (simp add: embed_chapters_def Let_def framed_def)

lemma embed_chapters_saved:
  assumes "files w mp3_path = Some original"
    and "open_tags en original = Inr tg"
    and "total_duration en original = Inr total_ms"
    and "id3_save en (build_tags tg chs total_ms) original = Saved new_content"
  shows "embed_chapters en mp3_path chs w =
           (Inr (mp3_path @ ''.bak''),
            print Final_tags
              (print Chapters_embedded
                 (write_file mp3_path new_content
                    (create_backup en mp3_path original (framed chs w)))))"
  using assms by (simp add: embed_chapters_def Let_def framed_def)

lemma files_create_backup_ok:
  assumes "files w (mp3_path @ ''.bak'') = None" and "backup_copy en = Copy_ok"
  shows "files (create_backup en mp3_path content w) = (files w)(mp3_path @ ''.bak'' \<mapsto> content)"
  using assms by (simp add: create_backup_def Let_def)

lemma files_restore_backup_bak:
  "files (restore_backup en mp3_path w) (mp3_path @ ''.bak'') = files w (mp3_path @ ''.bak'')"
  by (simp add: restore_backup_def split: option.splits copy_result.splits)

lemma files_restore_backup_ok:
  assumes "files w (mp3_path @ ''.bak'') = Some saved" and "restore_copy en = Copy_ok"
  shows "files (restore_backup en mp3_path w) mp3_path = Some saved"
  using assms by (simp add: restore_backup_def)

text \<open>
  C1, amended: when the save fails after the backup was made in this run (no backup
  file before, and the backup copy succeeds), \<^verbatim>\<open>embed_chapters\<close> raises the save
  error and the backup file stays, with the bytes the MP3 file had before the run; when
  the restore copy succeeds, the MP3 file has these bytes again; when the restore copy
  fails, that is printed, and the MP3 file has the bytes the failed save left, or the
  bytes the failed copy left if the copy had begun to write.
\<close>

theorem save_failure_restores_from_backup:
  assumes "files w mp3_path = Some original"
    and "files w (mp3_path @ ''.bak'') = None"
    and "open_tags en original = Inr tg"
    and "total_duration en original = Inr total_ms"
    and "backup_copy en = Copy_ok"
    and "id3_save en (build_tags tg chs total_ms) original = Save_error left"
  shows "fst (embed_chapters en mp3_path chs w) = Inl Save_failed
         \<and> files (snd (embed_chapters en mp3_path chs w)) (mp3_path @ ''.bak'') = Some original
         \<and> (restore_copy en = Copy_ok \<longrightarrow>
              files (snd (embed_chapters en mp3_path chs w)) mp3_path = Some original)
         \<and> (\<forall>part. restore_copy en = Copy_fails part \<longrightarrow>
              Error_restoring_backup \<in> set (printed (snd (embed_chapters en mp3_path chs w)))
              \<and> files (snd (embed_chapters en mp3_path chs w)) mp3_path =
                  Some (case part of None \<Rightarrow> left | Some torn \<Rightarrow> torn))"
proof -
  let ?w2 = "create_backup en mp3_path original (framed chs w)"
  let ?w3 = "print Error_saving_tags (write_file mp3_path left ?w2)"
  have e: "embed_chapters en mp3_path chs w = (Inl Save_failed, restore_backup en mp3_path ?w3)"
    by (rule embed_chapters_save_error [OF assms(1,3,4,6)])
  have "files ?w2 = (files w)(mp3_path @ ''.bak'' \<mapsto> original)"
    using assms(2,5) by (simp add: files_create_backup_ok)
  then have bak: "files ?w3 (mp3_path @ ''.bak'') = Some original"
    by simp
  have 1: "files (restore_backup en mp3_path ?w3) (mp3_path @ ''.bak'') = Some original"
    by (simp only: files_restore_backup_bak bak)
  have 2: "files (restore_backup en mp3_path ?w3) mp3_path = Some original"
    if "restore_copy en = Copy_ok"
    by (rule files_restore_backup_ok [OF bak that])
  have 3: "Error_restoring_backup \<in> set (printed (restore_backup en mp3_path ?w3))
      \<and> files (restore_backup en mp3_path ?w3) mp3_path =
          Some (case part of None \<Rightarrow> left | Some torn \<Rightarrow> torn)"
    if "restore_copy en = Copy_fails part" for part
    using that bak by (cases part) (simp_all add: restore_backup_def)
  from 1 2 3 show ?thesis by (simp add: e)
qed


text \<open>
  C1, as stated, fails: the restore copy of lines 139-140 can fail as well (line 142
  handles that). In \<open>env_save_and_restore_fail\<close> the save fails and leaves the file
  half written, the backup was made in this run, and the restore fails: the MP3 file is
  not what it was before the run.
\<close>

theorem restore_can_fail_too:
  "files example_world ''a.mp3'' = Some mp3_bytes
   \<and> files example_world ''a.mp3.bak'' = None
   \<and> fst (embed_chapters env_save_and_restore_fail ''a.mp3'' intro_main example_world) = Inl Save_failed
   \<and> files (snd (embed_chapters env_save_and_restore_fail ''a.mp3'' intro_main example_world))
        ''a.mp3.bak'' = Some mp3_bytes
   \<and> files (snd (embed_chapters env_save_and_restore_fail ''a.mp3'' intro_main example_world))
        ''a.mp3'' = Some ''half written''"
  by code_simp

text \<open>The save fails in \<open>env_save_fails\<close>, and the restore works.\<close>

theorem save_failure_restores_from_backup_witness:
  "fst (embed_chapters env_save_fails ''a.mp3'' intro_main example_world) = Inl Save_failed
   \<and> files (snd (embed_chapters env_save_fails ''a.mp3'' intro_main example_world))
        (''a.mp3'' @ ''.bak'') = Some mp3_bytes
   \<and> files (snd (embed_chapters env_save_fails ''a.mp3'' intro_main example_world))
        ''a.mp3'' = Some mp3_bytes"
proof -
  have 1: "files example_world ''a.mp3'' = Some mp3_bytes" by code_simp
  have 2: "files example_world (''a.mp3'' @ ''.bak'') = None" by code_simp
  have 3: "open_tags env_save_fails mp3_bytes = Inr []" by code_simp
  have 4: "total_duration env_save_fails mp3_bytes = Inr 300000" by code_simp
  have 5: "backup_copy env_save_fails = Copy_ok" by code_simp
  have 6: "id3_save env_save_fails (build_tags [] intro_main 300000) mp3_bytes =
           Save_error ''half written''" by code_simp
  have 7: "restore_copy env_save_fails = Copy_ok" by code_simp
  from save_failure_restores_from_backup [OF 1 2 3 4 5 6] 7 show ?thesis by blast
qed

lemma printed_create_backup_fails:
  assumes "files w (mp3_path @ ''.bak'') = None" and "backup_copy en = Copy_fails part"
  shows "printed (create_backup en mp3_path content w) = printed w @ [Error_creating_backup]"
  using assms by (cases part) (simp_all add: create_backup_def Let_def)

lemma files_create_backup_mp3 [simp]:
  "files (create_backup en mp3_path content w) mp3_path = files w mp3_path"
  by (simp add: create_backup_def Let_def split: copy_result.splits option.splits)

lemma printed_restore_backup: "set (printed w) \<subseteq> set (printed (restore_backup en mp3_path w))"
  by (auto simp: restore_backup_def split: copy_result.splits option.splits)

lemma remove_if_exists_ok:
  assumes "remove_ok en path"
  shows "\<exists>w'. remove_if_exists en path msg w = Inr w' \<and> files w' = (files w)(path := None)"
  using assms by (auto simp: remove_if_exists_def)

text \<open>
  C6, amended: when the backup copy fails, the error is printed and the function goes
  on without a backup: the tags are saved all the same. If the save succeeds,
  \<^verbatim>\<open>embed_chapters\<close> returns, the file has the new bytes, and
  \<^verbatim>\<open>process_files\<close> returns \<^verbatim>\<open>True\<close> when the two removals work. If the save
  fails, \<^verbatim>\<open>embed_chapters\<close> raises and \<^verbatim>\<open>process_files\<close> returns \<^verbatim>\<open>False\<close>.
\<close>

theorem backup_failure_is_printed_and_processing_continues:
  assumes "files w mp3_path = Some original"
    and "files w (mp3_path @ ''.bak'') = None"
    and "open_tags en original = Inr tg"
    and "total_duration en original = Inr total_ms"
    and "backup_copy en = Copy_fails part"
  shows "Error_creating_backup \<in> set (printed (snd (embed_chapters en mp3_path chs w)))
         \<and> (\<forall>new_content. id3_save en (build_tags tg chs total_ms) original = Saved new_content \<longrightarrow>
               fst (embed_chapters en mp3_path chs w) = Inr (mp3_path @ ''.bak'')
               \<and> files (snd (embed_chapters en mp3_path chs w)) mp3_path = Some new_content)
         \<and> (\<forall>left. id3_save en (build_tags tg chs total_ms) original = Save_error left \<longrightarrow>
               fst (embed_chapters en mp3_path chs w) = Inl Save_failed)
         \<and> (\<forall>new_content. id3_save en (build_tags tg chs total_ms) original = Saved new_content
               \<and> read_cue w cue_path = Inr chs \<and> chs \<noteq> []
               \<and> remove_ok en (mp3_path @ ''.bak'') \<and> remove_ok en cue_path \<longrightarrow>
               fst (process_files en cue_path mp3_path w) = True
               \<and> (cue_path \<noteq> mp3_path \<longrightarrow>
                    files (snd (process_files en cue_path mp3_path w)) mp3_path = Some new_content))
         \<and> (\<forall>left. id3_save en (build_tags tg chs total_ms) original = Save_error left
               \<and> read_cue w cue_path = Inr chs \<and> chs \<noteq> [] \<longrightarrow>
               fst (process_files en cue_path mp3_path w) = False)"
proof -
  let ?w2 = "create_backup en mp3_path original (framed chs w)"
  have bak: "files (framed chs w) (mp3_path @ ''.bak'') = None"
    using assms(2) by simp
  have msg: "Error_creating_backup \<in> set (printed ?w2)"
    by (simp add: printed_create_backup_fails [OF bak assms(5)])
  have saved: "embed_chapters en mp3_path chs w' =
      (Inr (mp3_path @ ''.bak''),
       print Final_tags (print Chapters_embedded (write_file mp3_path new_content
         (create_backup en mp3_path original (framed chs w')))))"
    if "id3_save en (build_tags tg chs total_ms) original = Saved new_content"
      and "files w' mp3_path = Some original" for new_content w'
    by (rule embed_chapters_saved [OF that(2) assms(3,4) that(1)])
  have failed: "embed_chapters en mp3_path chs w =
      (Inl Save_failed, restore_backup en mp3_path
         (print Error_saving_tags (write_file mp3_path left ?w2)))"
    if "id3_save en (build_tags tg chs total_ms) original = Save_error left" for left
    by (rule embed_chapters_save_error [OF assms(1,3,4) that])
  have 1: "Error_creating_backup \<in> set (printed (snd (embed_chapters en mp3_path chs w)))"
  proof (cases "id3_save en (build_tags tg chs total_ms) original")
    case (Saved new_content)
    from saved [OF this assms(1)] msg show ?thesis by simp
  next
    case (Save_error left)
    have "Error_creating_backup \<in>
        set (printed (print Error_saving_tags (write_file mp3_path left ?w2)))"
      using msg by simp
    with printed_restore_backup failed [OF Save_error] show ?thesis by fastforce
  qed
  have 2: "fst (embed_chapters en mp3_path chs w) = Inr (mp3_path @ ''.bak'')
      \<and> files (snd (embed_chapters en mp3_path chs w)) mp3_path = Some new_content"
    if "id3_save en (build_tags tg chs total_ms) original = Saved new_content" for new_content
    by (simp add: saved [OF that assms(1)])
  have 3: "fst (embed_chapters en mp3_path chs w) = Inl Save_failed"
    if "id3_save en (build_tags tg chs total_ms) original = Save_error left" for left
    by (simp add: failed [OF that])
  have 4: "fst (process_files en cue_path mp3_path w) = True
      \<and> (cue_path \<noteq> mp3_path \<longrightarrow>
           files (snd (process_files en cue_path mp3_path w)) mp3_path = Some new_content)"
    if s: "id3_save en (build_tags tg chs total_ms) original = Saved new_content"
      and cue: "read_cue w cue_path = Inr chs" "chs \<noteq> []"
      and rm: "remove_ok en (mp3_path @ ''.bak'')" "remove_ok en cue_path"
    for new_content
  proof -
    let ?w0 = "print (Found_chapters (length chs)) w"
    let ?w1 = "print Final_tags (print Chapters_embedded (write_file mp3_path new_content
         (create_backup en mp3_path original (framed chs ?w0))))"
    have e: "embed_chapters en mp3_path chs ?w0 = (Inr (mp3_path @ ''.bak''), ?w1)"
      by (rule saved [OF s]) (simp add: assms(1))
    have mp3: "files ?w1 mp3_path = Some new_content" by simp
    obtain w2 where w2: "remove_if_exists en (mp3_path @ ''.bak'')
        (Backup_deleted (mp3_path @ ''.bak'')) ?w1 = Inr w2"
      and f2: "files w2 = (files ?w1)(mp3_path @ ''.bak'' := None)"
      using remove_if_exists_ok [OF rm(1)] by blast
    obtain w3 where w3: "remove_if_exists en cue_path (Cue_deleted cue_path) w2 = Inr w3"
      and f3: "files w3 = (files w2)(cue_path := None)"
      using remove_if_exists_ok [OF rm(2)] by blast
    have p: "process_files en cue_path mp3_path w = (True, w3)"
      by (simp add: process_files_def cue e w2 w3)
    have "files w3 mp3_path = Some new_content" if "cue_path \<noteq> mp3_path"
      using that mp3 by (simp add: f3 f2)
    with p show ?thesis by simp
  qed
  have 5: "fst (process_files en cue_path mp3_path w) = False"
    if s: "id3_save en (build_tags tg chs total_ms) original = Save_error left"
      and cue: "read_cue w cue_path = Inr chs" "chs \<noteq> []"
    for left
  proof -
    let ?w0 = "print (Found_chapters (length chs)) w"
    have "files ?w0 mp3_path = Some original" by (simp add: assms(1))
    from embed_chapters_save_error [OF this assms(3,4) s]
    have "fst (embed_chapters en mp3_path chs ?w0) = Inl Save_failed" by simp
    then show ?thesis
      by (cases "embed_chapters en mp3_path chs ?w0") (simp add: process_files_def cue)
  qed
  from 1 2 3 4 5 show ?thesis by blast
qed

text \<open>
  C6, as stated, fails: in \<open>env_backup_fails\<close> the backup copy fails; the error is
  printed, but the file is saved with the new tags and the result for the file is
  \<^verbatim>\<open>True\<close>.
\<close>

theorem backup_failure_still_succeeds:
  "files example_world ''a.mp3.bak'' = None
   \<and> backup_copy env_backup_fails = Copy_fails None
   \<and> fst (process_files env_backup_fails ''a.mp3.cue'' ''a.mp3'' example_world) = True
   \<and> files (snd (process_files env_backup_fails ''a.mp3.cue'' ''a.mp3'' example_world)) ''a.mp3''
       = Some (''ID3 '' @ mp3_bytes)
   \<and> Error_creating_backup \<in>
       set (printed (snd (process_files env_backup_fails ''a.mp3.cue'' ''a.mp3'' example_world)))"
  by code_simp

text \<open>The run in \<open>env_backup_fails\<close>.\<close>

theorem backup_failure_is_printed_and_processing_continues_witness:
  "Error_creating_backup \<in>
     set (printed (snd (embed_chapters env_backup_fails ''a.mp3'' intro_main example_world)))
   \<and> fst (embed_chapters env_backup_fails ''a.mp3'' intro_main example_world) = Inr (''a.mp3'' @ ''.bak'')
   \<and> fst (process_files env_backup_fails ''a.mp3.cue'' ''a.mp3'' example_world) = True
   \<and> files (snd (process_files env_backup_fails ''a.mp3.cue'' ''a.mp3'' example_world)) ''a.mp3''
       = Some (''ID3 '' @ mp3_bytes)"
proof -
  have 1: "files example_world ''a.mp3'' = Some mp3_bytes" by code_simp
  have 2: "files example_world (''a.mp3'' @ ''.bak'') = None" by code_simp
  have 3: "open_tags env_backup_fails mp3_bytes = Inr []" by code_simp
  have 4: "total_duration env_backup_fails mp3_bytes = Inr 300000" by code_simp
  have 5: "backup_copy env_backup_fails = Copy_fails None" by code_simp
  have 6: "id3_save env_backup_fails (build_tags [] intro_main 300000) mp3_bytes =
           Saved (''ID3 '' @ mp3_bytes)" by code_simp
  have 7: "read_cue example_world ''a.mp3.cue'' = Inr intro_main" by code_simp
  have 8: "intro_main \<noteq> []" "''a.mp3.cue'' \<noteq> ''a.mp3''" by code_simp+
  have 9: "remove_ok env_backup_fails (''a.mp3'' @ ''.bak'')" "remove_ok env_backup_fails ''a.mp3.cue''"
    by code_simp+
  from backup_failure_is_printed_and_processing_continues
    [OF 1 2 3 4 5, of intro_main "''a.mp3.cue''"] 6 7 8 9
  show ?thesis by blast
qed






end
